theory Spec2Isabelle
  imports Main "HOL-Library.Word" "HOL-Library.Multiset"
begin

unbundle bit_operations_syntax

section \<open>Loop duplication passes: LASBC and Loop Conditional LICM\<close>

text \<open>
  A shallow embedding of \<^verbatim>\<open>llvm/lib/Transforms/LoopDuplication/LoopDuplicationPass.cpp\<close>:
  the generic duplication engine \<^verbatim>\<open>LoopDuplicationPass::transformCurrentLoop\<close> and
  its two clients, \<^verbatim>\<open>LASBCPass\<close> and \<^verbatim>\<open>LoopConditionalLICMPass\<close>.
  Basic blocks, loops and values are identified by natural numbers (the C++ code
  identifies them by pointer). Results of LLVM analyses the passes only query
  (LoopInfo, ScalarEvolution, the dominator tree, alias sets, MemorySSA) are fields
  or parameters of the model.
\<close>

type_synonym block = nat

subsection \<open>Loops as LoopInfo describes them\<close>

text \<open>
  A \<^verbatim>\<open>Loop\<close> object with the answers to the queries the passes make on it:
  its identity (the C++ code uses the address of the object), its blocks (for
  \<^verbatim>\<open>contains\<close>), \<^verbatim>\<open>getHeader\<close>, \<^verbatim>\<open>getLoopPreheader\<close> (null when there is none),
  \<^verbatim>\<open>isLoopSimplifyForm\<close>, \<^verbatim>\<open>getInductionVariable(SE)\<close> (null when there is none),
  \<^verbatim>\<open>isSafeToClone\<close>, the exiting blocks, the exit blocks, and \<^verbatim>\<open>getSubLoops\<close>.
  \<^verbatim>\<open>getExitingBlock\<close> and \<^verbatim>\<open>getExitBlock\<close> return the block when there is exactly
  one and null otherwise.
\<close>

datatype Loop = Loop
  (loopId: nat)
  (loopBlocks: "block list")
  (getHeader: block)
  (getLoopPreheader: "block option")
  (isLoopSimplifyForm: bool)
  (getInductionVariable: "nat option")
  (isSafeToClone: bool)
  (exitingBlocks: "block list")
  (exitBlocks: "block list")
  (getSubLoops: "Loop list")

definition contains :: "Loop \<Rightarrow> block \<Rightarrow> bool" where
  "contains L b = (b \<in> set (loopBlocks L))"

definition getExitingBlock :: "Loop \<Rightarrow> block option" where
  "getExitingBlock L = (case exitingBlocks L of [b] \<Rightarrow> Some b | _ \<Rightarrow> None)"

definition getExitBlock :: "Loop \<Rightarrow> block option" where
  "getExitBlock L = (case exitBlocks L of [b] \<Rightarrow> Some b | _ \<Rightarrow> None)"

subsection \<open>LoopConditionalLICMPass::isCurrentLoopACandidate\<close>

definition LCLICM_isCurrentLoopACandidate :: "Loop \<Rightarrow> bool" where
  "LCLICM_isCurrentLoopACandidate CurrentLoop =
     (if \<not> isLoopSimplifyForm CurrentLoop then False
      else if getInductionVariable CurrentLoop = None then False
      else if \<not> isSafeToClone CurrentLoop then False
      else if getExitingBlock CurrentLoop = None then False
      else if getExitBlock CurrentLoop = None then False
      else if getSubLoops CurrentLoop \<noteq> [] then False
      else True)"

subsection \<open>A fragment of the IR, as LASBC inspects it\<close>

text \<open>
  Instructions are numbered; a \<open>val\<close> is what an operand slot holds. The classes LASBC
  tests with \<^verbatim>\<open>dyn_cast\<close> and \<^verbatim>\<open>isa\<close> are constructors of \<open>inst_kind\<close>. A function
  is the list of its instructions in program order; the users of a value are read off
  it, one entry per use. (LLVM keeps a use list in another order; every test below
  gives the same verdict for every order, since the two users of the PHI are tried both
  ways and a second comparison rejects wherever it stands.)
\<close>

datatype ty = IntegerTy nat | PointerTy | VoidTy

datatype val =
    ConstantInt int
  | OtherConstant nat
  | Argument nat
  | GlobalValue nat
  | Instruction nat

datatype binop = Add | Sub | Mul

datatype predicate =
    ICMP_EQ | ICMP_NE | ICMP_UGT | ICMP_UGE | ICMP_ULT | ICMP_ULE
  | ICMP_SGT | ICMP_SGE | ICMP_SLT | ICMP_SLE

datatype inst_kind =
    PHINode "(val \<times> block) list"
  | BinaryOperator binop val val
  | ZExtInst val
  | ICmpInst predicate val val
  | BranchInst_conditional val block block
  | BranchInst_unconditional block
  | GetElementPtrInst val "val list"
  | LoadInst val
  | StoreInst val val
  | ReturnInst

record inst =
  kind :: inst_kind
  getType :: ty
  getParent :: block

type_synonym func = "(nat \<times> inst) list"

fun operands :: "inst_kind \<Rightarrow> val list" where
  "operands (PHINode inc) = map fst inc"
| "operands (BinaryOperator opc a b) = [a, b]"
| "operands (ZExtInst a) = [a]"
| "operands (ICmpInst p a b) = [a, b]"
| "operands (BranchInst_conditional c t e) = [c]"
| "operands (BranchInst_unconditional t) = []"
| "operands (GetElementPtrInst p idx) = p # idx"
| "operands (LoadInst p) = [p]"
| "operands (StoreInst v p) = [v, p]"
| "operands ReturnInst = []"

definition users :: "func \<Rightarrow> val \<Rightarrow> nat list" where
  "users F v =
     concat (map (\<lambda>(i, I). map (\<lambda>_. i) (filter (\<lambda>x. x = v) (operands (kind I)))) F)"

text \<open>\<^verbatim>\<open>Value::hasOneUser\<close>: exactly one distinct user, however many uses it makes.\<close>

definition hasOneUser :: "func \<Rightarrow> val \<Rightarrow> bool" where
  "hasOneUser F v = (length (remdups (users F v)) = 1)"

definition isZExtInst :: "func \<Rightarrow> nat \<Rightarrow> bool" where
  "isZExtInst F i = (case map_of F i of
       Some I \<Rightarrow> (case kind I of ZExtInst a \<Rightarrow> True | _ \<Rightarrow> False)
     | None \<Rightarrow> False)"

definition isICmpInst :: "func \<Rightarrow> nat \<Rightarrow> bool" where
  "isICmpInst F i = (case map_of F i of
       Some I \<Rightarrow> (case kind I of ICmpInst p a b \<Rightarrow> True | _ \<Rightarrow> False)
     | None \<Rightarrow> False)"

definition isBranchInst :: "func \<Rightarrow> nat \<Rightarrow> bool" where
  "isBranchInst F i = (case map_of F i of
       Some I \<Rightarrow> (case kind I of
           BranchInst_conditional c t e \<Rightarrow> True
         | BranchInst_unconditional t \<Rightarrow> True
         | _ \<Rightarrow> False)
     | None \<Rightarrow> False)"

definition isGetElementPtrInst :: "func \<Rightarrow> nat \<Rightarrow> bool" where
  "isGetElementPtrInst F i = (case map_of F i of
       Some I \<Rightarrow> (case kind I of GetElementPtrInst p idx \<Rightarrow> True | _ \<Rightarrow> False)
     | None \<Rightarrow> False)"

text \<open>\<^verbatim>\<open>Loop::isLoopInvariant\<close>: an instruction is invariant when its block is outside
  the loop; every other value is invariant.\<close>

definition isLoopInvariant :: "func \<Rightarrow> Loop \<Rightarrow> val \<Rightarrow> bool" where
  "isLoopInvariant F L v = (case v of
       Instruction i \<Rightarrow> (case map_of F i of
           Some I \<Rightarrow> \<not> contains L (getParent I)
         | None \<Rightarrow> True)
     | _ \<Rightarrow> True)"

subsection \<open>LASBCPass::isPHIAnAppropriateIV\<close>

text \<open>What the pass records about the induction variable it accepted.\<close>

record lasbc_capture =
  IV :: nat
  IVLoopIterationValue :: nat
  IVLoopIterationValueOpcode :: binop
  IVLoopIterationValueConstOperand :: int
  IVExtension :: nat
  N :: val

text \<open>
  The first part: the type of the PHI, the back-edge value \<^verbatim>\<open>IterValue\<close> and its two
  operands. \<open>None\<close> is \<^verbatim>\<open>return false\<close>. The code reads the incoming edges 0 and 1
  only; a PHI in the header of a loop has at least these two.
\<close>

definition getIterValue :: "func \<Rightarrow> Loop \<Rightarrow> nat \<Rightarrow> (nat \<times> binop \<times> int) option" where
  "getIterValue F CurrentLoop PN =
     (case map_of F PN of
        None \<Rightarrow> None
      | Some PNI \<Rightarrow>
         (case kind PNI of
            PHINode ((v0, b0) # (v1, b1) # others) \<Rightarrow>
              if getType PNI \<noteq> IntegerTy 32 then None
              else
                let IncomingEdge = (if contains CurrentLoop b0 then 1 else 0 :: nat);
                    BackEdge = (if IncomingEdge = 1 then 0 else 1 :: nat)
                in (case (if BackEdge = 0 then v0 else v1) of
                      Instruction it \<Rightarrow>
                        (case map_of F it of
                           None \<Rightarrow> None
                         | Some ItI \<Rightarrow>
                            (case kind ItI of
                               BinaryOperator opc op0 op1 \<Rightarrow>
                                 if \<not> hasOneUser F (Instruction it) then None
                                 else (case op1 of
                                         ConstantInt c \<Rightarrow>
                                           if op0 \<noteq> Instruction PN then None
                                           else Some (it, opc, c)
                                       | _ \<Rightarrow> None)
                             | _ \<Rightarrow> None))
                    | _ \<Rightarrow> None)
          | _ \<Rightarrow> None))"

text \<open>The PHI has exactly two uses, and one of the two users is a \<^verbatim>\<open>ZExtInst\<close>.\<close>

definition getZExt :: "func \<Rightarrow> nat \<Rightarrow> nat option" where
  "getZExt F PN =
     (case users F (Instruction PN) of
        [U1, U2] \<Rightarrow>
          if isZExtInst F U1 then Some U1
          else if isZExtInst F U2 then Some U2
          else None
      | _ \<Rightarrow> None)"

text \<open>
  The loop over the users of the \<^verbatim>\<open>ZExtInst\<close>: one comparison, used by one branch
  only, and address computations; anything else rejects. The outer \<open>None\<close> is
  \<^verbatim>\<open>return false\<close> from inside the loop.
\<close>

fun scanZExtUsers :: "func \<Rightarrow> nat list \<Rightarrow> nat option \<Rightarrow> bool \<Rightarrow> (nat option \<times> bool) option" where
  "scanZExtUsers F [] Compare SawGEPInstruction = Some (Compare, SawGEPInstruction)"
| "scanZExtUsers F (I # rest) Compare SawGEPInstruction =
     (if isICmpInst F I then
        (if Compare = None \<and> hasOneUser F (Instruction I)
            \<and> isBranchInst F (last (users F (Instruction I)))
         then scanZExtUsers F rest (Some I) SawGEPInstruction
         else None)
      else if isGetElementPtrInst F I then scanZExtUsers F rest Compare True
      else None)"

definition getCompare :: "func \<Rightarrow> nat \<Rightarrow> nat option" where
  "getCompare F ZExt =
     (case scanZExtUsers F (users F (Instruction ZExt)) None False of
        None \<Rightarrow> None
      | Some (Compare, SawGEPInstruction) \<Rightarrow>
          (case Compare of
             None \<Rightarrow> None
           | Some c \<Rightarrow> if \<not> SawGEPInstruction then None else Some c))"

text \<open>
  Capturing \<open>N\<close>: operand 0 of the comparison, or operand 1 when operand 0 is the
  operand of the \<^verbatim>\<open>ZExtInst\<close>. \<open>N\<close> must be an instruction, invariant in the loop, whose
  parent block is the preheader itself.
\<close>

definition captureN :: "func \<Rightarrow> Loop \<Rightarrow> nat \<Rightarrow> nat \<Rightarrow> val option" where
  "captureN F CurrentLoop ZExt Compare =
     (case (map_of F Compare, map_of F ZExt) of
        (Some CI, Some ZI) \<Rightarrow>
          (case (kind CI, kind ZI) of
             (ICmpInst p c0 c1, ZExtInst z0) \<Rightarrow>
               let N = (if c0 = z0 then c1 else c0)
               in (case N of
                     Instruction n \<Rightarrow>
                       (case map_of F n of
                          None \<Rightarrow> None
                        | Some NInst \<Rightarrow>
                            if \<not> isLoopInvariant F CurrentLoop N
                               \<or> Some (getParent NInst) \<noteq> getLoopPreheader CurrentLoop
                            then None
                            else Some N)
                   | _ \<Rightarrow> None)
           | _ \<Rightarrow> None)
      | _ \<Rightarrow> None)"

text \<open>The branch using the comparison lies in the loop and leaves it on one side.\<close>

definition branchControlsLoop :: "func \<Rightarrow> Loop \<Rightarrow> nat \<Rightarrow> bool" where
  "branchControlsLoop F CurrentLoop Compare =
     (case map_of F (last (users F (Instruction Compare))) of
        None \<Rightarrow> False
      | Some TheBranch \<Rightarrow>
          (case kind TheBranch of
             BranchInst_conditional c s0 s1 \<Rightarrow>
               if \<not> contains CurrentLoop (getParent TheBranch)
                  \<or> (contains CurrentLoop s0 \<and> contains CurrentLoop s1)
               then False
               else True
           | _ \<Rightarrow> False))"

definition isPHIAnAppropriateIV :: "func \<Rightarrow> Loop \<Rightarrow> nat \<Rightarrow> lasbc_capture option" where
  "isPHIAnAppropriateIV F CurrentLoop PN =
     (case getIterValue F CurrentLoop PN of
        None \<Rightarrow> None
      | Some (IterValue, opc, ConstOperandValue) \<Rightarrow>
          (case getZExt F PN of
             None \<Rightarrow> None
           | Some ZExt \<Rightarrow>
               (case getCompare F ZExt of
                  None \<Rightarrow> None
                | Some Compare \<Rightarrow>
                    (case captureN F CurrentLoop ZExt Compare of
                       None \<Rightarrow> None
                     | Some n \<Rightarrow>
                         if \<not> branchControlsLoop F CurrentLoop Compare then None
                         else Some \<lparr>IV = PN, IVLoopIterationValue = IterValue,
                                    IVLoopIterationValueOpcode = opc,
                                    IVLoopIterationValueConstOperand = ConstOperandValue,
                                    IVExtension = ZExt, N = n\<rparr>))))"

subsection \<open>LASBCPass::isCurrentLoopACandidate\<close>

text \<open>\<^verbatim>\<open>Header->phis()\<close>: the PHI nodes of a block, in order.\<close>

definition phis :: "func \<Rightarrow> block \<Rightarrow> nat list" where
  "phis F b =
     map fst (filter (\<lambda>(i, I). getParent I = b \<and>
        (case kind I of PHINode inc \<Rightarrow> True | _ \<Rightarrow> False)) F)"

fun firstAppropriateIV :: "func \<Rightarrow> Loop \<Rightarrow> nat list \<Rightarrow> lasbc_capture option" where
  "firstAppropriateIV F CurrentLoop [] = None"
| "firstAppropriateIV F CurrentLoop (PN # rest) =
     (case isPHIAnAppropriateIV F CurrentLoop PN of
        Some c \<Rightarrow> Some c
      | None \<Rightarrow> firstAppropriateIV F CurrentLoop rest)"

definition LASBC_isCurrentLoopACandidate :: "func \<Rightarrow> Loop \<Rightarrow> lasbc_capture option" where
  "LASBC_isCurrentLoopACandidate F CurrentLoop =
     firstAppropriateIV F CurrentLoop (phis F (getHeader CurrentLoop))"

subsection \<open>The function of the LASBC regression test\<close>

text \<open>
  \<^verbatim>\<open>foo\<close> of the test of LASBC (\<^verbatim>\<open>for (int32_t i = 0; i < n; i++) a[i] = b[i] * c;\<close>),
  with the first operand of the exit comparison and the start value of the induction
  variable left open. Blocks: 0 \<^verbatim>\<open>entry\<close>, 1 \<^verbatim>\<open>for.cond\<close>, 2 \<^verbatim>\<open>for.body\<close>,
  3 \<^verbatim>\<open>for.cond.cleanup\<close>. Globals: 0 \<^verbatim>\<open>@n\<close>, 1 \<^verbatim>\<open>@b\<close>, 2 \<^verbatim>\<open>@c\<close>, 3 \<^verbatim>\<open>@a\<close>.
  The test itself is \<open>foo (Instruction 0) 0\<close>.
\<close>

definition foo :: "val \<Rightarrow> int \<Rightarrow> func" where
  "foo bound start =
    [(0, \<lparr>kind = LoadInst (GlobalValue 0), getType = IntegerTy 64, getParent = 0\<rparr>),
     (1, \<lparr>kind = BranchInst_unconditional 1, getType = VoidTy, getParent = 0\<rparr>),
     (2, \<lparr>kind = PHINode [(ConstantInt start, 0), (Instruction 12, 2)],
          getType = IntegerTy 32, getParent = 1\<rparr>),
     (3, \<lparr>kind = ZExtInst (Instruction 2), getType = IntegerTy 64, getParent = 1\<rparr>),
     (4, \<lparr>kind = ICmpInst ICMP_SGT bound (Instruction 3), getType = IntegerTy 1,
          getParent = 1\<rparr>),
     (5, \<lparr>kind = BranchInst_conditional (Instruction 4) 2 3, getType = VoidTy,
          getParent = 1\<rparr>),
     (6, \<lparr>kind = GetElementPtrInst (GlobalValue 1) [ConstantInt 0, Instruction 3],
          getType = PointerTy, getParent = 2\<rparr>),
     (7, \<lparr>kind = LoadInst (Instruction 6), getType = IntegerTy 64, getParent = 2\<rparr>),
     (8, \<lparr>kind = LoadInst (GlobalValue 2), getType = IntegerTy 64, getParent = 2\<rparr>),
     (9, \<lparr>kind = BinaryOperator Mul (Instruction 8) (Instruction 7),
          getType = IntegerTy 64, getParent = 2\<rparr>),
     (10, \<lparr>kind = GetElementPtrInst (GlobalValue 3) [ConstantInt 0, Instruction 3],
          getType = PointerTy, getParent = 2\<rparr>),
     (11, \<lparr>kind = StoreInst (Instruction 9) (Instruction 10), getType = VoidTy,
          getParent = 2\<rparr>),
     (12, \<lparr>kind = BinaryOperator Add (Instruction 2) (ConstantInt 1),
          getType = IntegerTy 32, getParent = 2\<rparr>),
     (13, \<lparr>kind = BranchInst_unconditional 1, getType = VoidTy, getParent = 2\<rparr>),
     (14, \<lparr>kind = ReturnInst, getType = VoidTy, getParent = 3\<rparr>)]"

definition foo_loop :: Loop where
  "foo_loop =
     Loop 0 [1, 2] 1 (Some 0) True (Some 2) True [1] [3] []"

subsection \<open>Signed comparisons\<close>

text \<open>\<^verbatim>\<open>icmp sgt\<close>, \<^verbatim>\<open>icmp slt\<close> and \<^verbatim>\<open>icmp sle\<close> on integers of one width.\<close>

definition icmp_sgt :: "'a::len word \<Rightarrow> 'a word \<Rightarrow> bool" where
  "icmp_sgt a b = word_sless b a"

definition icmp_slt :: "'a::len word \<Rightarrow> 'a word \<Rightarrow> bool" where
  "icmp_slt a b = word_sless a b"

definition icmp_sle :: "'a::len word \<Rightarrow> 'a word \<Rightarrow> bool" where
  "icmp_sle a b = word_sle a b"

subsection \<open>LASBCPass::emitPreheaderBranch: the guard\<close>

text \<open>
  The branch condition is built from the value \<open>N\<close> in \<open>N\<close>'s own integer type:
  \<^verbatim>\<open>icmp sgt N, 0\<close>, \<^verbatim>\<open>mul N, sizeInBits(type of N) / 8\<close>, \<^verbatim>\<open>icmp sle mul, INT32_MAX\<close>,
  \<^verbatim>\<open>and\<close>, and \<^verbatim>\<open>icmp eq and, 1\<close>. The \<^verbatim>\<open>mul\<close> carries no overflow flag: it wraps.
\<close>

definition INT32_MAX :: int where
  "INT32_MAX = 2147483647"

definition LASBC_BranchCondition :: "'a::len word \<Rightarrow> bool" where
  "LASBC_BranchCondition n =
     (let NGreaterThanZero = icmp_sgt n 0;
          MulInst = n * word_of_nat (LENGTH('a) div 8);
          NLesserThanINT32_MAX = icmp_sle MulInst (word_of_int INT32_MAX);
          AndInst = (NGreaterThanZero \<and> NLesserThanINT32_MAX)
      in AndInst = True)"

text \<open>
  \<^verbatim>\<open>BranchInst::Create(TrueDest, FalseDest, BranchCondition)\<close>: the block control
  reaches from the preheader, \<open>n\<close> being the value of \<open>N\<close> there.
\<close>

definition LASBC_emitPreheaderBranch :: "block \<Rightarrow> block \<Rightarrow> 'a::len word \<Rightarrow> block" where
  "LASBC_emitPreheaderBranch TrueDest FalseDest n =
     (if LASBC_BranchCondition n then TrueDest else FalseDest)"

text \<open>
  The same loop with an early exit from the body
  (\<^verbatim>\<open>if (b[i] == 0) break;\<close> after the store): block 2 now ends in a conditional
  branch to the exit block 3 or to the new latch 4 \<^verbatim>\<open>for.inc\<close>, so that the loop has
  the two exiting blocks 1 and 2.
\<close>

definition foo_break :: func where
  "foo_break =
    [(0, \<lparr>kind = LoadInst (GlobalValue 0), getType = IntegerTy 64, getParent = 0\<rparr>),
     (1, \<lparr>kind = BranchInst_unconditional 1, getType = VoidTy, getParent = 0\<rparr>),
     (2, \<lparr>kind = PHINode [(ConstantInt 0, 0), (Instruction 12, 4)],
          getType = IntegerTy 32, getParent = 1\<rparr>),
     (3, \<lparr>kind = ZExtInst (Instruction 2), getType = IntegerTy 64, getParent = 1\<rparr>),
     (4, \<lparr>kind = ICmpInst ICMP_SGT (Instruction 0) (Instruction 3), getType = IntegerTy 1,
          getParent = 1\<rparr>),
     (5, \<lparr>kind = BranchInst_conditional (Instruction 4) 2 3, getType = VoidTy,
          getParent = 1\<rparr>),
     (6, \<lparr>kind = GetElementPtrInst (GlobalValue 1) [ConstantInt 0, Instruction 3],
          getType = PointerTy, getParent = 2\<rparr>),
     (7, \<lparr>kind = LoadInst (Instruction 6), getType = IntegerTy 64, getParent = 2\<rparr>),
     (8, \<lparr>kind = LoadInst (GlobalValue 2), getType = IntegerTy 64, getParent = 2\<rparr>),
     (9, \<lparr>kind = BinaryOperator Mul (Instruction 8) (Instruction 7),
          getType = IntegerTy 64, getParent = 2\<rparr>),
     (10, \<lparr>kind = GetElementPtrInst (GlobalValue 3) [ConstantInt 0, Instruction 3],
          getType = PointerTy, getParent = 2\<rparr>),
     (11, \<lparr>kind = StoreInst (Instruction 9) (Instruction 10), getType = VoidTy,
          getParent = 2\<rparr>),
     (15, \<lparr>kind = ICmpInst ICMP_EQ (Instruction 7) (ConstantInt 0), getType = IntegerTy 1,
          getParent = 2\<rparr>),
     (16, \<lparr>kind = BranchInst_conditional (Instruction 15) 3 4, getType = VoidTy,
          getParent = 2\<rparr>),
     (12, \<lparr>kind = BinaryOperator Add (Instruction 2) (ConstantInt 1),
          getType = IntegerTy 32, getParent = 4\<rparr>),
     (13, \<lparr>kind = BranchInst_unconditional 1, getType = VoidTy, getParent = 4\<rparr>),
     (14, \<lparr>kind = ReturnInst, getType = VoidTy, getParent = 3\<rparr>)]"

definition foo_break_loop :: Loop where
  "foo_break_loop =
     Loop 0 [1, 2, 4] 1 (Some 0) True (Some 2) True [1, 2] [3] []"

subsection \<open>Values as Loop Conditional LICM walks them\<close>

text \<open>
  \<^verbatim>\<open>populatePromotionPtrDeps\<close> follows operands only (stored value, operands of the
  binary operator, pointer operands of loads and of address computations), never a
  PHI, so the values it sees are finite trees. Each node carries the number that
  identifies it, so that equality of trees is identity of values.
  Of a \<^verbatim>\<open>GEPOperator\<close> the model keeps: its number, its parent block (\<open>None\<close> for a
  constant expression), \<^verbatim>\<open>getNumIndices()\<close>, the result of
  \<^verbatim>\<open>SE->getUnsignedRangeMax(SE->getSCEVAtScope(getOperand(1), parent loop))\<close>,
  \<^verbatim>\<open>DL->getTypeSizeInBits(getSourceElementType())\<close>, and its pointer operand. Offsets are
  64 bits wide.
\<close>

datatype Value =
    Const nat
  | Arg nat
  | Global nat
  | Load nat block Value
  | GEP nat "block option" nat "64 word" nat Value
  | BinOp nat block Value Value
  | OtherInstruction nat block

text \<open>
  The accesses MemorySSA lists for the blocks of the loop, in order. Of a memory
  instruction the code asks only whether it is a store; a store has a pointer operand
  and a value operand.
\<close>

datatype MemoryInst = Store Value Value | OtherMemoryInst

datatype MemoryAccess = MemoryPhi | MemoryUseOrDef MemoryInst

type_synonym MemLoc = "Value \<times> 64 word"

text \<open>
  \<^verbatim>\<open>PromotionPtrDeps\<close>, a map from a promotion candidate to the list of its
  \<open>{starting address, offset}\<close> pairs, as an association list.
\<close>

type_synonym PromotionPtrDeps = "(Value \<times> MemLoc list) list"

definition count :: "PromotionPtrDeps \<Rightarrow> Value \<Rightarrow> bool" where
  "count deps k = (map_of deps k \<noteq> None)"

text \<open>\<^verbatim>\<open>PromotionPtrDeps.insert({k, {}})\<close>: no effect when the key is there already.\<close>

definition insert_empty :: "PromotionPtrDeps \<Rightarrow> Value \<Rightarrow> PromotionPtrDeps" where
  "insert_empty deps k = (if count deps k then deps else deps @ [(k, [])])"

text \<open>\<^verbatim>\<open>PromotionPtrDeps[k].push_back(x)\<close>; \<^verbatim>\<open>operator[]\<close> creates a missing entry.\<close>

definition push_back :: "PromotionPtrDeps \<Rightarrow> Value \<Rightarrow> MemLoc \<Rightarrow> PromotionPtrDeps" where
  "push_back deps k x =
     (if count deps k then map (\<lambda>(k', l). if k' = k then (k', l @ [x]) else (k', l)) deps
      else deps @ [(k, [x])])"

subsection \<open>collectPromotionCandidates\<close>

text \<open>
  The alias sets are those \<^verbatim>\<open>AliasSetTracker\<close> forms from the loads and stores of the
  loop whose pointer operand is invariant in the loop. A set holds at least one
  pointer: the model keeps the first one apart.
\<close>

record AliasSet =
  isForwardingAliasSet :: bool
  isMod :: bool
  isMustAlias :: bool
  firstPointer :: Value
  otherPointers :: "Value list"

type_synonym PointerMustAliases = "Value \<times> Value list"

definition collectPromotionCandidates :: "AliasSet list \<Rightarrow> PointerMustAliases list" where
  "collectPromotionCandidates AST =
     map (\<lambda>AS. (firstPointer AS, otherPointers AS))
       (filter (\<lambda>AS. \<not> isForwardingAliasSet AS \<and> isMod AS \<and> isMustAlias AS) AST)"

subsection \<open>LoopConditionalLICMPass::isAccessibleInPreheader\<close>

text \<open>\<open>dominatesPreheader b\<close> stands for \<^verbatim>\<open>DT->dominates(b, Preheader)\<close>.\<close>

fun isAccessibleInPreheader :: "(block \<Rightarrow> bool) \<Rightarrow> Value \<Rightarrow> bool" where
  "isAccessibleInPreheader dominatesPreheader (Const c) = True"
| "isAccessibleInPreheader dominatesPreheader (Arg a) = True"
| "isAccessibleInPreheader dominatesPreheader (Global g) = True"
| "isAccessibleInPreheader dominatesPreheader (GEP i None n m s p) = True"
| "isAccessibleInPreheader dominatesPreheader (GEP i (Some b) n m s p) = dominatesPreheader b"
| "isAccessibleInPreheader dominatesPreheader (Load i b p) = dominatesPreheader b"
| "isAccessibleInPreheader dominatesPreheader (BinOp i b x y) = dominatesPreheader b"
| "isAccessibleInPreheader dominatesPreheader (OtherInstruction i b) = dominatesPreheader b"

subsection \<open>LoopConditionalLICMPass::populatePromotionPtrDeps\<close>

text \<open>
  The \<^verbatim>\<open>while (LI && GEP)\<close> loop over a chain of address computations, entered at a
  \<^verbatim>\<open>GEPOperator\<close> with \<open>numIndices\<close>, \<open>idxMax\<close>, \<open>srcBits\<close> and pointer operand \<open>ptr\<close>.
  \<open>acc\<close> is \<^verbatim>\<open>OffsetFromStartAddr\<close>, \<open>None\<close> as long as \<^verbatim>\<open>StartAddr\<close> is null;
  \<open>updateOffset\<close> is the body up to the assignment of \<^verbatim>\<open>StartAddr\<close>. The loop goes on
  when the pointer operand is a load through another \<^verbatim>\<open>GEPOperator\<close>. The result is
  \<^verbatim>\<open>StartAddr\<close> and \<^verbatim>\<open>OffsetFromStartAddr\<close> at the exit of the loop.
\<close>

definition updateOffset :: "64 word option \<Rightarrow> nat \<Rightarrow> 64 word \<Rightarrow> nat \<Rightarrow> 64 word" where
  "updateOffset acc numIndices idxMax srcBits =
     (let Offset = (if numIndices = 1 then idxMax else word_of_nat (srcBits div 8))
      in case acc of Some OffsetFromStartAddr \<Rightarrow> OffsetFromStartAddr * Offset | None \<Rightarrow> Offset)"

fun walkGEPChain :: "64 word option \<Rightarrow> nat \<Rightarrow> 64 word \<Rightarrow> nat \<Rightarrow> Value \<Rightarrow> MemLoc" where
  "walkGEPChain acc numIndices idxMax srcBits (Load j b (GEP i' par' n' m' s' p')) =
     walkGEPChain (Some (updateOffset acc numIndices idxMax srcBits)) n' m' s' p'"
| "walkGEPChain acc numIndices idxMax srcBits ptr =
     (ptr, updateOffset acc numIndices idxMax srcBits)"

text \<open>
  The loop over the operands of the binary operator. \<open>None\<close> is \<^verbatim>\<open>return false\<close>;
  otherwise the result is \<^verbatim>\<open>SawPointerOperand\<close> and the map.
\<close>

fun visitOperands ::
  "(block \<Rightarrow> bool) \<Rightarrow> Value \<Rightarrow> Value list \<Rightarrow> bool \<Rightarrow> PromotionPtrDeps
     \<Rightarrow> (bool \<times> PromotionPtrDeps) option" where
  "visitOperands dominatesPreheader PointerOperand [] SawPointerOperand deps =
     Some (SawPointerOperand, deps)"
| "visitOperands dominatesPreheader PointerOperand (Op # rest) SawPointerOperand deps =
     (case Op of
        Load i b LIPointerOperand \<Rightarrow>
          (let Saw = (if PointerOperand = LIPointerOperand then True else SawPointerOperand)
           in case LIPointerOperand of
                GEP g par numIndices idxMax srcBits ptr \<Rightarrow>
                  (let (StartAddr, OffsetFromStartAddr) =
                         walkGEPChain None numIndices idxMax srcBits ptr
                   in if \<not> isAccessibleInPreheader dominatesPreheader StartAddr then None
                      else visitOperands dominatesPreheader PointerOperand rest Saw
                             (push_back deps PointerOperand (StartAddr, OffsetFromStartAddr)))
              | _ \<Rightarrow> None)
      | _ \<Rightarrow> None)"

text \<open>The loop over the memory accesses; \<open>None\<close> is \<^verbatim>\<open>return false\<close>.\<close>

fun visitAccesses ::
  "(block \<Rightarrow> bool) \<Rightarrow> MemoryAccess list \<Rightarrow> PromotionPtrDeps \<Rightarrow> PromotionPtrDeps option" where
  "visitAccesses dominatesPreheader [] deps = Some deps"
| "visitAccesses dominatesPreheader (Access # rest) deps =
     (case Access of
        MemoryPhi \<Rightarrow> visitAccesses dominatesPreheader rest deps
      | MemoryUseOrDef MI \<Rightarrow>
          (case MI of
             OtherMemoryInst \<Rightarrow> visitAccesses dominatesPreheader rest deps
           | Store PointerOperand ValueOperand \<Rightarrow>
               if \<not> count deps PointerOperand
               then visitAccesses dominatesPreheader rest deps
               else (case ValueOperand of
                       BinOp i b x y \<Rightarrow>
                         (case visitOperands dominatesPreheader PointerOperand [x, y] False deps of
                            None \<Rightarrow> None
                          | Some (SawPointerOperand, deps') \<Rightarrow>
                              if \<not> SawPointerOperand then None
                              else visitAccesses dominatesPreheader rest deps')
                     | _ \<Rightarrow> visitAccesses dominatesPreheader rest deps)))"

text \<open>
  \<open>None\<close> is the result \<^verbatim>\<open>false\<close>; \<open>Some deps\<close> is the result \<^verbatim>\<open>true\<close> with the map as
  the function leaves it. (After \<^verbatim>\<open>false\<close> the caller returns at once and the next
  call clears the map.)
\<close>

definition populatePromotionPtrDeps ::
  "(block \<Rightarrow> bool) \<Rightarrow> MemoryAccess list \<Rightarrow> PromotionPtrDeps \<Rightarrow> PromotionPtrDeps option" where
  "populatePromotionPtrDeps dominatesPreheader Accesses deps =
     (case visitAccesses dominatesPreheader Accesses deps of
        None \<Rightarrow> None
      | Some deps' \<Rightarrow>
          if list_ex (\<lambda>Pair. length (snd Pair) > 0) deps' then Some deps' else None)"

subsection \<open>LoopConditionalLICMPass::emitPreheaderBranch: the guard\<close>

text \<open>
  \<^verbatim>\<open>GetStartAndEnd\<close> emits two address computations on the starting address, with
  indices 0 and the offset, and converts them to 64-bit integers. \<open>addr v\<close> is the
  run-time address held by \<open>v\<close> and \<open>stride v\<close> the allocation size of the type the
  address computation steps over.
\<close>

definition GetStartAndEnd ::
  "(Value \<Rightarrow> 64 word) \<Rightarrow> (Value \<Rightarrow> 64 word) \<Rightarrow> MemLoc \<Rightarrow> 64 word \<times> 64 word" where
  "GetStartAndEnd addr stride Dep =
     (let End = addr (fst Dep) + snd Dep * stride (fst Dep);
          Start = addr (fst Dep) + 0 * stride (fst Dep)
      in (Start, End))"

record OverlapConditionPair =
  StartA :: "64 word"
  StartB :: "64 word"
  EndA :: "64 word"
  EndB :: "64 word"

text \<open>The two nested loops over one list: every \<open>i < j\<close>, in the order of the code.\<close>

fun pairsOfDeps ::
  "(Value \<Rightarrow> 64 word) \<Rightarrow> (Value \<Rightarrow> 64 word) \<Rightarrow> MemLoc list \<Rightarrow> OverlapConditionPair list" where
  "pairsOfDeps addr stride [] = []"
| "pairsOfDeps addr stride (Di # rest) =
     map (\<lambda>Dj. let A = GetStartAndEnd addr stride Di; B = GetStartAndEnd addr stride Dj
                in \<lparr>StartA = fst A, StartB = fst B, EndA = snd A, EndB = snd B\<rparr>) rest
     @ pairsOfDeps addr stride rest"

definition OverlapConditionPairs ::
  "(Value \<Rightarrow> 64 word) \<Rightarrow> (Value \<Rightarrow> 64 word) \<Rightarrow> PromotionPtrDeps \<Rightarrow> OverlapConditionPair list" where
  "OverlapConditionPairs addr stride deps =
     concat (map (\<lambda>Pair. pairsOfDeps addr stride (snd Pair)) deps)"

text \<open>
  One \<^verbatim>\<open>or\<close> per pair: \<^verbatim>\<open>Cmp1 = icmp sgt StartA, EndB\<close> and
  \<^verbatim>\<open>Cmp2 = icmp slt EndB, StartA\<close>.
\<close>

definition Or_of :: "OverlapConditionPair \<Rightarrow> bool" where
  "Or_of OCP =
     (let Cmp1 = icmp_sgt (StartA OCP) (EndB OCP);
          Cmp2 = icmp_slt (EndB OCP) (StartA OCP)
      in Cmp1 \<or> Cmp2)"

definition Ors ::
  "(Value \<Rightarrow> 64 word) \<Rightarrow> (Value \<Rightarrow> 64 word) \<Rightarrow> PromotionPtrDeps \<Rightarrow> bool list" where
  "Ors addr stride deps = map Or_of (OverlapConditionPairs addr stride deps)"

text \<open>
  \<^verbatim>\<open>FinalCond\<close>: the only \<^verbatim>\<open>or\<close>, or the conjunction of all, built from \<^verbatim>\<open>Ors[0]\<close> and
  \<^verbatim>\<open>Ors[1]\<close>. With no \<^verbatim>\<open>or\<close> at all the code would read \<^verbatim>\<open>Ors[0]\<close> out of
  bounds: \<open>None\<close>.
\<close>

definition FinalCond :: "bool list \<Rightarrow> bool option" where
  "FinalCond os =
     (if length os = 1 then Some (os ! 0)
      else if length os < 2 then None
      else Some (foldl (\<lambda>c x. c \<and> x) (os ! 0 \<and> os ! 1) (drop 2 os)))"

definition LCLICM_emitPreheaderBranch ::
  "block \<Rightarrow> block \<Rightarrow> (Value \<Rightarrow> 64 word) \<Rightarrow> (Value \<Rightarrow> 64 word) \<Rightarrow> PromotionPtrDeps
     \<Rightarrow> block option" where
  "LCLICM_emitPreheaderBranch TrueDest FalseDest addr stride deps =
     (case FinalCond (Ors addr stride deps) of
        None \<Rightarrow> None
      | Some c \<Rightarrow> Some (if c then TrueDest else FalseDest))"

subsection \<open>The inner loop of the first Loop Conditional LICM regression test\<close>

text \<open>
  \<^verbatim>\<open>a[i] += b[i][j]\<close> with \<^verbatim>\<open>extern long *a, b[100][8]\<close>. Block 4 is the preheader
  of the inner loop, block 9 its only block; blocks 0, 1 and 4 dominate the preheader.
  \<^verbatim>\<open>%5 = load @a\<close>, \<^verbatim>\<open>%6 = getelementptr i64, %5, %i\<close> (the candidate),
  \<^verbatim>\<open>%11 = getelementptr [100 x [8 x i64]], @b, 0, %i, %10\<close>.
\<close>

definition fn_dominatesPreheader :: "block \<Rightarrow> bool" where
  "fn_dominatesPreheader b = (b = 0 \<or> b = 1 \<or> b = 4)"

definition fn_a :: Value where
  "fn_a = Load 5 4 (Global 0)"

definition fn_P :: Value where
  "fn_P = GEP 6 (Some 4) 1 100 64 fn_a"

definition fn_Q :: Value where
  "fn_Q = GEP 11 (Some 9) 3 0 51200 (Global 1)"

definition fn_store :: MemoryAccess where
  "fn_store = MemoryUseOrDef (Store fn_P (BinOp 14 9 (Load 13 9 fn_P) (Load 12 9 fn_Q)))"

definition fn_Accesses :: "MemoryAccess list" where
  "fn_Accesses = [MemoryPhi, MemoryUseOrDef OtherMemoryInst, MemoryUseOrDef OtherMemoryInst,
     fn_store]"

definition fn_AST :: "AliasSet list" where
  "fn_AST = [\<lparr>isForwardingAliasSet = False, isMod = True, isMustAlias = True,
     firstPointer = fn_P, otherPointers = []\<rparr>]"

subsection \<open>LoopDuplicationPass: the processed loops\<close>

text \<open>
  \<^verbatim>\<open>Loop::getLoopsInPreorder\<close>: the loop itself, then the loops nested in it.
\<close>

fun getLoopsInPreorder :: "Loop \<Rightarrow> Loop list" where
  "getLoopsInPreorder (Loop i bs h p sf iv sc e x subs) =
     Loop i bs h p sf iv sc e x subs # concat (map getLoopsInPreorder subs)"

text \<open>
  What a pass object keeps from one call of \<^verbatim>\<open>runOnLoop\<close> to the next is the set
  \<^verbatim>\<open>ProcessedLoops\<close>; every other member is overwritten at the start of a call before
  it is read. The state of the model is this set and the function the pass works on.
\<close>

record 'f pass_state =
  ProcessedLoops :: "nat set"
  function_IR :: 'f

text \<open>
  \<^verbatim>\<open>transformCurrentLoop\<close>. All its edits of the function (splitting the preheader
  edge and the exit edges, cloning the blocks, extending the PHI nodes, remapping,
  \<^verbatim>\<open>emitPreheaderBranch\<close>, \<^verbatim>\<open>optimizeDuplicatedLoop\<close>, the MemorySSA and dominator tree
  updates) are the parameter \<open>duplicate\<close>, which also yields the \<^verbatim>\<open>Loop\<close> object
  \<^verbatim>\<open>cloneLoop\<close> returns. What follows them is the marking of the two loop nests.
\<close>

definition transformCurrentLoop ::
  "('f \<Rightarrow> Loop \<Rightarrow> 'f \<times> Loop) \<Rightarrow> Loop \<Rightarrow> 'f pass_state \<Rightarrow> 'f pass_state" where
  "transformCurrentLoop duplicate CurrentLoop s =
     (let (F', DuplicatedLoop) = duplicate (function_IR s) CurrentLoop;
          P1 = fold (\<lambda>Lp. insert (loopId Lp)) (getLoopsInPreorder CurrentLoop)
                 (ProcessedLoops s);
          P2 = fold (\<lambda>Lp. insert (loopId Lp)) (getLoopsInPreorder DuplicatedLoop) P1
      in \<lparr>ProcessedLoops = P2, function_IR = F'\<rparr>)"

subsection \<open>LASBCPass::runOnLoop\<close>

text \<open>
  The result is the returned flag and the state. \<open>None\<close>: the call dereferences
  \<^verbatim>\<open>Preheader\<close> (for the data layout) before any test, which is undefined for a loop
  without a preheader.
\<close>

definition LASBC_runOnLoop ::
  "(lasbc_capture \<Rightarrow> func \<Rightarrow> Loop \<Rightarrow> func \<times> Loop) \<Rightarrow> Loop \<Rightarrow> func pass_state
     \<Rightarrow> (bool \<times> func pass_state) option" where
  "LASBC_runOnLoop duplicate L s =
     (case getLoopPreheader L of
        None \<Rightarrow> None
      | Some Preheader \<Rightarrow>
          Some (if loopId L \<in> ProcessedLoops s then (False, s)
                else (case LASBC_isCurrentLoopACandidate (function_IR s) L of
                        None \<Rightarrow> (False, s)
                      | Some c \<Rightarrow> (True, transformCurrentLoop (duplicate c) L s))))"

subsection \<open>LoopConditionalLICMPass::runOnLoop\<close>

text \<open>
  \<open>AST\<close>, \<open>Accesses\<close> and \<open>dominatesPreheader\<close> are what alias analysis, MemorySSA
  and the dominator tree answer for the loop at the time of the call.
\<close>

definition initPromotionPtrDeps :: "PointerMustAliases list \<Rightarrow> PromotionPtrDeps" where
  "initPromotionPtrDeps PromotionPtrMustAliasSets =
     foldl insert_empty [] (map fst PromotionPtrMustAliasSets)"

definition LCLICM_runOnLoop ::
  "(PromotionPtrDeps \<Rightarrow> 'f \<Rightarrow> Loop \<Rightarrow> 'f \<times> Loop) \<Rightarrow> AliasSet list \<Rightarrow> MemoryAccess list
     \<Rightarrow> (block \<Rightarrow> bool) \<Rightarrow> Loop \<Rightarrow> 'f pass_state \<Rightarrow> (bool \<times> 'f pass_state) option" where
  "LCLICM_runOnLoop duplicate AST Accesses dominatesPreheader L s =
     (case getLoopPreheader L of
        None \<Rightarrow> None
      | Some Preheader \<Rightarrow>
          Some (if loopId L \<in> ProcessedLoops s then (False, s)
                else if \<not> LCLICM_isCurrentLoopACandidate L then (False, s)
                else
                  let PromotionPtrMustAliasSets = collectPromotionCandidates AST
                  in if PromotionPtrMustAliasSets = [] then (False, s)
                     else (case populatePromotionPtrDeps dominatesPreheader Accesses
                                  (initPromotionPtrDeps PromotionPtrMustAliasSets) of
                             None \<Rightarrow> (False, s)
                           | Some deps \<Rightarrow> (True, transformCurrentLoop (duplicate deps) L s))))"

text \<open>The inner loop of the test: one block, and induction variable \<^verbatim>\<open>%j\<close>.\<close>

definition fn_loop :: Loop where
  "fn_loop = Loop 1 [9] 9 (Some 4) True (Some 20) True [9] [7] []"

text \<open>
  The same loop with one more store to the candidate in front, whose value operand
  is a load and not a binary operator (\<^verbatim>\<open>a[i] = b[i][j]; a[i] += b[i][j];\<close>).
\<close>

definition fn_Accesses_plain_store :: "MemoryAccess list" where
  "fn_Accesses_plain_store = MemoryUseOrDef (Store fn_P (Load 15 9 fn_Q)) # fn_Accesses"

text \<open>
  Two recorded ranges of one candidate, over bytes: 100 bytes from the argument
  \<open>Arg 0\<close>, held at address 1000, and 200 bytes from \<open>Arg 1\<close>, held at address 5000.
\<close>

definition two_ranges :: PromotionPtrDeps where
  "two_ranges = [(GEP 2 (Some 0) 1 100 8 (Arg 0), [(Arg 0, 100), (Arg 1, 200)])]"

definition two_ranges_addr :: "Value \<Rightarrow> 64 word" where
  "two_ranges_addr v = (if v = Arg 0 then 1000 else 5000)"

definition byte_stride :: "Value \<Rightarrow> 64 word" where
  "byte_stride v = 1"

text \<open>An invariant of \<^verbatim>\<open>populatePromotionPtrDeps\<close>: every list has even length.\<close>

definition evenDeps :: "PromotionPtrDeps \<Rightarrow> bool" where
  "evenDeps deps = list_all (\<lambda>Pair. even (length (snd Pair))) deps"

text \<open>The map \<^verbatim>\<open>populatePromotionPtrDeps\<close> builds for the loop of the test.\<close>

definition fn_deps :: PromotionPtrDeps where
  "fn_deps = [(fn_P, [(fn_a, 100), (Global 1, 6400)])]"

text \<open>
  Stand-ins for the edits of \<^verbatim>\<open>transformCurrentLoop\<close> in the examples: the function
  is left as it is, and the \<^verbatim>\<open>Loop\<close> object of the copy is fixed.
\<close>

definition fn_loop_clone :: Loop where
  "fn_loop_clone = Loop 2 [19] 19 (Some 14) True (Some 30) True [19] [17] []"

definition fn_duplicate :: "PromotionPtrDeps \<Rightarrow> unit \<Rightarrow> Loop \<Rightarrow> unit \<times> Loop" where
  "fn_duplicate deps F L = (F, fn_loop_clone)"

definition foo_loop_clone :: Loop where
  "foo_loop_clone = Loop 5 [11, 12] 11 (Some 10) True (Some 2) True [11] [13] []"

definition foo_duplicate :: "func \<Rightarrow> Loop \<Rightarrow> func \<times> Loop" where
  "foo_duplicate F L = (F, foo_loop_clone)"

definition foo_state :: "func pass_state" where
  "foo_state = \<lparr>ProcessedLoops = {}, function_IR = foo (Instruction 0) 0\<rparr>"

subsection \<open>transformCurrentLoop: the PHI nodes at the successors of the exit blocks\<close>

text \<open>
  The loop of \<^verbatim>\<open>transformCurrentLoop\<close> over the exit blocks, after the blocks have
  been cloned. Of the function it reads and writes the PHI nodes only: the state is
  the list of PHI nodes of every block, a PHI node being its number and its incoming
  (value, block) pairs in order. The rest is the context \<open>clone_context\<close>:
  \<^verbatim>\<open>VMap\<close> on values and on blocks, the single successor of a block (\<open>None\<close> when its
  terminator does not have exactly one, where the code asserts), the landing pad
  instruction of a block (null when it has none), the predecessors of a block, and
  the number of the PHI node created for an exit block. The update of LoopInfo in
  the loop touches no PHI node and is left out.
\<close>

type_synonym phi = "nat \<times> (val \<times> block) list"

record clone_context =
  VMap :: "val \<Rightarrow> val option"
  VMapBlock :: "block \<Rightarrow> block"
  getSingleSuccessor :: "block \<Rightarrow> block option"
  getLandingPadInst :: "block \<Rightarrow> val option"
  predecessors :: "block \<Rightarrow> block list"
  newPHI :: "block \<Rightarrow> nat"

definition blocksOf :: "phi \<Rightarrow> block list" where
  "blocksOf PN = map snd (snd PN)"

definition valuesOf :: "phi \<Rightarrow> val list" where
  "valuesOf PN = map fst (snd PN)"

text \<open>\<^verbatim>\<open>PHINode::getIncomingValueForBlock\<close>: the value of the first entry for the
  block; the code asserts that there is one.\<close>

definition getIncomingValueForBlock :: "phi \<Rightarrow> block \<Rightarrow> val option" where
  "getIncomingValueForBlock PN BB = map_option fst (find (\<lambda>e. snd e = BB) (snd PN))"

definition addIncoming :: "phi \<Rightarrow> val \<Rightarrow> block \<Rightarrow> phi" where
  "addIncoming PN V BB = (fst PN, snd PN @ [(V, BB)])"

text \<open>\<^verbatim>\<open>It = VMap.find(V); if (It != VMap.end()) V = It->second;\<close>\<close>

definition translate :: "(val \<Rightarrow> val option) \<Rightarrow> val \<Rightarrow> val" where
  "translate vmap V = (case vmap V of Some V' \<Rightarrow> V' | None \<Rightarrow> V)"

text \<open>The loop over \<^verbatim>\<open>ExitSucc->phis()\<close>; \<open>None\<close> when an assertion fails.\<close>

fun addIncomingForNewExit ::
  "(val \<Rightarrow> val option) \<Rightarrow> block \<Rightarrow> block \<Rightarrow> phi list \<Rightarrow> phi list option" where
  "addIncomingForNewExit vmap ExitBlock NewExit [] = Some []"
| "addIncomingForNewExit vmap ExitBlock NewExit (PN # rest) =
     (case getIncomingValueForBlock PN ExitBlock of
        None \<Rightarrow> None
      | Some V \<Rightarrow>
          (case addIncomingForNewExit vmap ExitBlock NewExit rest of
             None \<Rightarrow> None
           | Some rest' \<Rightarrow> Some (addIncoming PN (translate vmap V) NewExit # rest')))"

text \<open>\<^verbatim>\<open>Value::replaceAllUsesWith\<close>, as far as the PHI nodes use the value.\<close>

definition replaceUsesInPhi :: "val \<Rightarrow> val \<Rightarrow> phi \<Rightarrow> phi" where
  "replaceUsesInPhi Old New PN =
     (fst PN, map (\<lambda>(V, BB). (if V = Old then New else V, BB)) (snd PN))"

definition replaceAllUsesWith ::
  "val \<Rightarrow> val \<Rightarrow> (block \<Rightarrow> phi list) \<Rightarrow> (block \<Rightarrow> phi list)" where
  "replaceAllUsesWith Old New ps = (\<lambda>b. map (replaceUsesInPhi Old New) (ps b))"

text \<open>
  The loop over the predecessors of \<^verbatim>\<open>ExitSucc\<close> for a landing pad. The new PHI node
  \<open>PN\<close> is carried apart, with its entries so far, and joins the PHI nodes of
  \<^verbatim>\<open>ExitSucc\<close> at the end; it stands after them in the block. \<open>None\<close>: a predecessor has
  no landing pad instruction, which the code dereferences.
\<close>

fun unifyLandingPads ::
  "(block \<Rightarrow> val option) \<Rightarrow> nat \<Rightarrow> block list \<Rightarrow> (block \<Rightarrow> phi list) \<Rightarrow> phi
     \<Rightarrow> ((block \<Rightarrow> phi list) \<times> phi) option" where
  "unifyLandingPads getLPI PN [] ps PNnode = Some (ps, PNnode)"
| "unifyLandingPads getLPI PN (BB # rest) ps PNnode =
     (case getLPI BB of
        None \<Rightarrow> None
      | Some LPI \<Rightarrow>
          unifyLandingPads getLPI PN rest
            (replaceAllUsesWith LPI (Instruction PN) ps)
            (addIncoming (replaceUsesInPhi LPI (Instruction PN) PNnode) LPI BB))"

text \<open>One turn of the loop, for the exit block \<open>ExitBlock\<close>.\<close>

definition updateExitSuccessor ::
  "clone_context \<Rightarrow> block \<Rightarrow> (block \<Rightarrow> phi list) \<Rightarrow> (block \<Rightarrow> phi list) option" where
  "updateExitSuccessor ctx ExitBlock ps =
     (let NewExit = VMapBlock ctx ExitBlock
      in case getSingleSuccessor ctx NewExit of
           None \<Rightarrow> None
         | Some ExitSucc \<Rightarrow>
             (case addIncomingForNewExit (VMap ctx) ExitBlock NewExit (ps ExitSucc) of
                None \<Rightarrow> None
              | Some PNs \<Rightarrow>
                  (case getLandingPadInst ctx NewExit of
                     None \<Rightarrow> Some (ps(ExitSucc := PNs))
                   | Some LPad \<Rightarrow>
                       (case unifyLandingPads (getLandingPadInst ctx) (newPHI ctx ExitBlock)
                               (predecessors ctx ExitSucc) (ps(ExitSucc := PNs))
                               (newPHI ctx ExitBlock, []) of
                          None \<Rightarrow> None
                        | Some (ps', PNnode) \<Rightarrow>
                            Some (ps'(ExitSucc := ps' ExitSucc @ [PNnode]))))))"

fun updateExitSuccessors ::
  "clone_context \<Rightarrow> block list \<Rightarrow> (block \<Rightarrow> phi list) \<Rightarrow> (block \<Rightarrow> phi list) option" where
  "updateExitSuccessors ctx [] ps = Some ps"
| "updateExitSuccessors ctx (ExitBlock # rest) ps =
     (case updateExitSuccessor ctx ExitBlock ps of
        None \<Rightarrow> None
      | Some ps' \<Rightarrow> updateExitSuccessors ctx rest ps')"

text \<open>
  A PHI node none of whose incoming values, translated or not, is a landing pad
  instruction. (A landing pad instruction of a predecessor cannot reach a PHI node of
  the successor in a function whose loop has dedicated exits.)
\<close>

definition usesNoLandingPad :: "clone_context \<Rightarrow> phi \<Rightarrow> bool" where
  "usesNoLandingPad ctx PN =
     (set (valuesOf PN) \<inter> ran (getLandingPadInst ctx) = {}
      \<and> translate (VMap ctx) ` set (valuesOf PN) \<inter> ran (getLandingPadInst ctx) = {})"

text \<open>What a replacement of landing pad instructions leaves of a PHI node.\<close>

definition keeps :: "val set \<Rightarrow> phi \<Rightarrow> phi \<Rightarrow> bool" where
  "keeps LP P P' =
     (fst P' = fst P \<and> blocksOf P' = blocksOf P
      \<and> (if set (valuesOf P) \<inter> LP = {} then P' = P else True))"

text \<open>
  An example: the exit block 5 with its copy 15, both branching to block 3, where
  the PHI node 30 takes the value of instruction 20, cloned as instruction 120.
\<close>

definition exit_ctx :: clone_context where
  "exit_ctx = \<lparr>VMap = (\<lambda>v. if v = Instruction 20 then Some (Instruction 120) else None),
     VMapBlock = (\<lambda>b. b + 10),
     getSingleSuccessor = (\<lambda>b. if b = 15 \<or> b = 5 then Some 3 else None),
     getLandingPadInst = (\<lambda>b. None),
     predecessors = (\<lambda>b. if b = 3 then [5, 15] else []),
     newPHI = (\<lambda>b. 99)\<rparr>"

definition exit_phis :: "block \<Rightarrow> phi list" where
  "exit_phis b = (if b = 3 then [(30, [(Instruction 20, 5)])] else [])"

text \<open>A PHI node with the entry the loop adds for the copy of \<open>ExitBlock\<close>.\<close>

definition addEntry :: "clone_context \<Rightarrow> block \<Rightarrow> phi \<Rightarrow> phi" where
  "addEntry ctx ExitBlock PN =
     addIncoming PN (translate (VMap ctx) (the (getIncomingValueForBlock PN ExitBlock)))
       (VMapBlock ctx ExitBlock)"

section \<open>Properties\<close>

lemma LASBC_BranchCondition_64:
  "LASBC_BranchCondition (n :: 64 word) \<longleftrightarrow> 0 < sint n \<and> sint (n * 8) \<le> INT32_MAX"
  by (simp add: LASBC_BranchCondition_def icmp_sgt_def icmp_sle_def word_sless_alt
      word_sle_eq INT32_MAX_def)

text \<open>
  C10. \<^verbatim>\<open>LoopConditionalLICMPass::isCurrentLoopACandidate\<close> returns false for every
  loop in which ScalarEvolution finds no induction variable, whatever the other
  properties of the loop are.
\<close>

theorem LCLICM_rejects_without_induction_variable:
  "getInductionVariable L = None \<Longrightarrow> LCLICM_isCurrentLoopACandidate L = False"
  by (simp add: LCLICM_isCurrentLoopACandidate_def)

theorem LCLICM_rejects_without_induction_variable_witness:
  "LCLICM_isCurrentLoopACandidate (Loop 0 [1, 2] 1 (Some 0) True None True [1] [3] []) = False"
  using LCLICM_rejects_without_induction_variable
    [of "Loop 0 [1, 2] 1 (Some 0) True None True [1] [3] []"]
  by simp

subsection \<open>What LASBC's candidate test guarantees\<close>

lemma captureN_Some:
  "captureN F L Z C = Some n \<Longrightarrow>
     \<exists>k NInst. n = Instruction k \<and> map_of F k = Some NInst
        \<and> Some (getParent NInst) = getLoopPreheader L \<and> isLoopInvariant F L n"
  unfolding captureN_def
  by (auto simp: Let_def split: option.splits inst_kind.splits val.splits if_splits prod.splits)

lemma isPHIAnAppropriateIV_N:
  "isPHIAnAppropriateIV F L PN = Some c \<Longrightarrow>
     \<exists>k NInst. N c = Instruction k \<and> map_of F k = Some NInst
        \<and> Some (getParent NInst) = getLoopPreheader L \<and> isLoopInvariant F L (N c)"
  unfolding isPHIAnAppropriateIV_def
  by (auto split: option.splits prod.splits if_splits dest: captureN_Some)

lemma firstAppropriateIV_Some:
  "firstAppropriateIV F L ps = Some c \<Longrightarrow> \<exists>PN \<in> set ps. isPHIAnAppropriateIV F L PN = Some c"
  by (induction ps) (auto split: option.splits)

lemma isPHIAnAppropriateIV_cong:
  assumes blocks: "loopBlocks L' = loopBlocks L"
    and preheader: "getLoopPreheader L' = getLoopPreheader L"
  shows "isPHIAnAppropriateIV F L' PN = isPHIAnAppropriateIV F L PN"
  unfolding isPHIAnAppropriateIV_def getIterValue_def captureN_def branchControlsLoop_def
    isLoopInvariant_def contains_def blocks preheader
  by (rule refl)

lemma firstAppropriateIV_cong:
  "loopBlocks L' = loopBlocks L \<Longrightarrow> getLoopPreheader L' = getLoopPreheader L \<Longrightarrow>
     firstAppropriateIV F L' ps = firstAppropriateIV F L ps"
  by (induction ps) (simp_all add: isPHIAnAppropriateIV_cong [of L' L] split: option.split)

text \<open>
  C6, as the claim states it, fails: the loop of \<open>foo_break\<close> has two exiting blocks
  and \<^verbatim>\<open>LASBCPass::isCurrentLoopACandidate\<close> accepts it, since the test looks at the
  PHI nodes of the header only.
\<close>

theorem LASBC_candidate_structure_counterexample:
  "LASBC_isCurrentLoopACandidate foo_break foo_break_loop =
     Some \<lparr>IV = 2, IVLoopIterationValue = 12, IVLoopIterationValueOpcode = Add,
       IVLoopIterationValueConstOperand = 1, IVExtension = 3, N = Instruction 0\<rparr>
   \<and> getExitingBlock foo_break_loop = None"
  by code_simp

text \<open>
  C6, amended. Every loop that \<^verbatim>\<open>LASBCPass::isCurrentLoopACandidate\<close> accepts has a
  preheader, and the verdict does not depend on how many exiting blocks, exit blocks
  or sub-loops the loop has: a loop accepted stays accepted, with the same induction
  variable, whatever these three are (\<open>e'\<close>, \<open>x'\<close> and \<open>s'\<close> below).
\<close>

theorem LASBC_candidate_has_preheader:
  "LASBC_isCurrentLoopACandidate F (Loop i bs h p sf iv sc e x s) = Some c \<Longrightarrow>
     p \<noteq> None \<and>
     LASBC_isCurrentLoopACandidate F (Loop i bs h p sf iv sc e' x' s') = Some c"
proof -
  assume a: "LASBC_isCurrentLoopACandidate F (Loop i bs h p sf iv sc e x s) = Some c"
  then obtain PN where "isPHIAnAppropriateIV F (Loop i bs h p sf iv sc e x s) PN = Some c"
    unfolding LASBC_isCurrentLoopACandidate_def by (blast dest: firstAppropriateIV_Some)
  then obtain NInst :: inst where "Some (getParent NInst) = p"
    by (auto dest: isPHIAnAppropriateIV_N)
  then have "p \<noteq> None"
    by (metis option.distinct(1))
  moreover have "LASBC_isCurrentLoopACandidate F (Loop i bs h p sf iv sc e' x' s') = Some c"
    using a firstAppropriateIV_cong
      [of "Loop i bs h p sf iv sc e' x' s'" "Loop i bs h p sf iv sc e x s" F "phis F h"]
    by (simp add: LASBC_isCurrentLoopACandidate_def)
  ultimately show ?thesis by simp
qed

theorem LASBC_candidate_has_preheader_witness:
  "Some (0 :: block) \<noteq> None \<and>
   LASBC_isCurrentLoopACandidate (foo (Instruction 0) 0)
     (Loop 0 [1, 2] 1 (Some 0) True (Some 2) True [1, 2] [3, 5] [foo_break_loop]) =
     Some \<lparr>IV = 2, IVLoopIterationValue = 12, IVLoopIterationValueOpcode = Add,
       IVLoopIterationValueConstOperand = 1, IVExtension = 3, N = Instruction 0\<rparr>"
proof -
  have h: "LASBC_isCurrentLoopACandidate (foo (Instruction 0) 0)
       (Loop 0 [1, 2] 1 (Some 0) True (Some 2) True [1] [3] []) =
     Some \<lparr>IV = 2, IVLoopIterationValue = 12, IVLoopIterationValueOpcode = Add,
       IVLoopIterationValueConstOperand = 1, IVExtension = 3, N = Instruction 0\<rparr>"
    by code_simp
  show ?thesis
    using LASBC_candidate_has_preheader [OF h] by simp
qed

text \<open>
  C7, as the claim states it, fails: in the function of the test, with the bound of
  the exit comparison a function argument, an integer constant or a global instead of
  the load in the preheader, and nothing else changed, the PHI is rejected.
\<close>

theorem LASBC_bound_kinds_counterexample:
  "isPHIAnAppropriateIV (foo (Instruction 0) 0) foo_loop 2 =
     Some \<lparr>IV = 2, IVLoopIterationValue = 12, IVLoopIterationValueOpcode = Add,
       IVLoopIterationValueConstOperand = 1, IVExtension = 3, N = Instruction 0\<rparr>
   \<and> isPHIAnAppropriateIV (foo (Argument 0) 0) foo_loop 2 = None
   \<and> isPHIAnAppropriateIV (foo (ConstantInt 100) 0) foo_loop 2 = None
   \<and> isPHIAnAppropriateIV (foo (GlobalValue 0) 0) foo_loop 2 = None"
  by code_simp

text \<open>
  C7, amended. \<^verbatim>\<open>LASBCPass::isPHIAnAppropriateIV\<close> accepts a PHI only if the other
  operand \<open>N\<close> of the exit comparison is an instruction whose parent block is the
  preheader of the loop itself (and so lies outside the loop); a constant, a function
  argument, a global or an instruction of any other block is rejected.
\<close>

theorem LASBC_bound_is_preheader_instruction:
  "isPHIAnAppropriateIV F L PN = Some c \<Longrightarrow>
     \<exists>k NInst. N c = Instruction k \<and> map_of F k = Some NInst
        \<and> Some (getParent NInst) = getLoopPreheader L
        \<and> \<not> contains L (getParent NInst)"
proof -
  assume "isPHIAnAppropriateIV F L PN = Some c"
  then obtain k NInst where n: "N c = Instruction k" "map_of F k = Some NInst"
      "Some (getParent NInst) = getLoopPreheader L" "isLoopInvariant F L (N c)"
    by (blast dest: isPHIAnAppropriateIV_N)
  then have "\<not> contains L (getParent NInst)"
    by (simp add: isLoopInvariant_def)
  with n show ?thesis by blast
qed

theorem LASBC_bound_is_preheader_instruction_witness:
  "\<exists>k NInst. Instruction 0 = Instruction k \<and> map_of (foo (Instruction 0) 0) k = Some NInst
        \<and> Some (getParent NInst) = getLoopPreheader foo_loop
        \<and> \<not> contains foo_loop (getParent NInst)"
proof -
  have h: "isPHIAnAppropriateIV (foo (Instruction 0) 0) foo_loop 2 =
     Some \<lparr>IV = 2, IVLoopIterationValue = 12, IVLoopIterationValueOpcode = Add,
       IVLoopIterationValueConstOperand = 1, IVExtension = 3, N = Instruction 0\<rparr>"
    by code_simp
  show ?thesis
    using LASBC_bound_is_preheader_instruction [OF h] by simp
qed


subsection \<open>The dependency lists of Loop Conditional LICM\<close>

lemma count_iff: "count deps k \<longleftrightarrow> k \<in> fst ` set deps"
  by (simp add: count_def map_of_eq_None_iff)

lemma count_push_back: "count (push_back deps k x) k"
proof (cases "count deps k")
  case True
  then obtain l where "(k, l) \<in> set deps" by (auto simp: count_iff)
  then have "(k, l @ [x]) \<in> set (push_back deps k x)"
    using True by (force simp: push_back_def)
  then show ?thesis by (force simp: count_iff)
next
  case False
  then show ?thesis by (simp add: push_back_def count_iff)
qed

lemma push_back_absent:
  "\<not> count deps k \<Longrightarrow> push_back (push_back deps k x) k y = deps @ [(k, [x, y])]"
proof -
  assume a: "\<not> count deps k"
  then have nk: "\<forall>p \<in> set deps. fst p \<noteq> k" by (auto simp: count_iff)
  have 1: "push_back deps k x = deps @ [(k, [x])]" using a by (simp add: push_back_def)
  have 2: "map (\<lambda>(k', l). if k' = k then (k', l @ [y]) else (k', l)) deps = deps"
    using nk by (induction deps) auto
  show ?thesis
    using count_push_back [of deps k x] unfolding 1
    by (simp add: push_back_def 2)
qed

lemma push_back_present:
  "count deps k \<Longrightarrow> push_back (push_back deps k x) k y
     = map (\<lambda>(k', l). if k' = k then (k', l @ [x, y]) else (k', l)) deps"
proof -
  assume a: "count deps k"
  have 1: "push_back deps k x = map (\<lambda>(k', l). if k' = k then (k', l @ [x]) else (k', l)) deps"
    using a by (simp add: push_back_def)
  show ?thesis
    using count_push_back [of deps k x] unfolding 1
    by (simp add: push_back_def split_def comp_def cong: map_cong)
qed

lemma evenDeps_push_back2:
  "evenDeps deps \<Longrightarrow> evenDeps (push_back (push_back deps k x) k y)"
proof (cases "count deps k")
  case True
  assume "evenDeps deps"
  then show ?thesis
    unfolding push_back_present [OF True]
    by (auto simp: evenDeps_def list_all_iff)
next
  case False
  assume e: "evenDeps deps"
  then show ?thesis unfolding push_back_absent [OF False] by (simp add: evenDeps_def)
qed


lemma visitOperands_one:
  "visitOperands d P (x # rest) saw deps = Some r \<Longrightarrow>
     \<exists>a saw1. visitOperands d P rest saw1 (push_back deps P a) = Some r"
  apply (cases x)
        apply simp_all
  subgoal for i b ptr
    apply (cases ptr)
          apply simp_all
    apply (auto simp: Let_def split: prod.splits if_splits)
    done
  done

lemma visitOperands_two:
  "visitOperands d P [x, y] saw deps = Some (saw', deps') \<Longrightarrow>
     \<exists>a b. deps' = push_back (push_back deps P a) P b"
proof -
  assume "visitOperands d P [x, y] saw deps = Some (saw', deps')"
  then obtain a saw1 where "visitOperands d P [y] saw1 (push_back deps P a) = Some (saw', deps')"
    by (blast dest: visitOperands_one)
  then obtain b saw2 where "visitOperands d P [] saw2 (push_back (push_back deps P a) P b) = Some (saw', deps')"
    by (blast dest: visitOperands_one)
  then have "deps' = push_back (push_back deps P a) P b" by simp
  then show ?thesis by blast
qed

lemma visitAccesses_even:
  "visitAccesses d accs deps = Some deps' \<Longrightarrow> evenDeps deps \<Longrightarrow> evenDeps deps'"
proof (induction accs arbitrary: deps)
  case Nil
  then show ?case by simp
next
  case (Cons a accs)
  show ?case
  proof (cases a)
    case MemoryPhi
    with Cons show ?thesis by simp
  next
    case (MemoryUseOrDef MI)
    show ?thesis
    proof (cases MI)
      case OtherMemoryInst
      with Cons MemoryUseOrDef show ?thesis by simp
    next
      case (Store P V)
      show ?thesis
      proof (cases "count deps P \<and> (\<exists>i b x y. V = BinOp i b x y)")
        case False
        then have "visitAccesses d (a # accs) deps = visitAccesses d accs deps"
          using MemoryUseOrDef Store by (auto split: Value.splits)
        with Cons show ?thesis by simp
      next
        case True
        then obtain i b x y where V: "V = BinOp i b x y" and c: "count deps P" by blast
        from Cons.prems(1) obtain saw deps1 where
          vo: "visitOperands d P [x, y] False deps = Some (saw, deps1)"
          and rest: "visitAccesses d accs deps1 = Some deps'"
          using MemoryUseOrDef Store V c
          by (auto split: option.splits if_splits)
        from vo obtain m n where "deps1 = push_back (push_back deps P m) P n"
          by (blast dest: visitOperands_two)
        then have "evenDeps deps1" using Cons.prems(2) by (simp add: evenDeps_push_back2)
        with rest show ?thesis by (rule Cons.IH)
      qed
    qed
  qed
qed

lemma evenDeps_init: "evenDeps (initPromotionPtrDeps sets)"
proof -
  have "list_all (\<lambda>Pair. snd Pair = []) (foldl insert_empty deps ks)"
    if "list_all (\<lambda>Pair. snd Pair = []) deps" for deps ks
    using that by (induction ks arbitrary: deps) (auto simp: insert_empty_def)
  from this [of "[]"] show ?thesis
    by (auto simp: initPromotionPtrDeps_def evenDeps_def list_all_iff)
qed

lemma pairsOfDeps_nonempty: "2 \<le> length l \<Longrightarrow> pairsOfDeps addr stride l \<noteq> []"
  by (cases l; cases "tl l") auto

lemma FinalCond_defined: "os \<noteq> [] \<Longrightarrow> FinalCond os \<noteq> None"
  by (cases os) (auto simp: FinalCond_def)

text \<open>
  C9. When \<^verbatim>\<open>populatePromotionPtrDeps\<close> returns true, started as \<^verbatim>\<open>runOnLoop\<close> starts
  it (every candidate with an empty list), every list of the map is empty or holds at
  least two entries, so that \<^verbatim>\<open>emitPreheaderBranch\<close> builds at least one \<^verbatim>\<open>or\<close>, never
  reads \<^verbatim>\<open>Ors\<close> out of bounds, and branches on a defined condition.
\<close>

theorem LCLICM_branch_condition_defined:
  assumes "populatePromotionPtrDeps d accs (initPromotionPtrDeps sets) = Some deps"
  shows "list_all (\<lambda>Pair. snd Pair = [] \<or> 2 \<le> length (snd Pair)) deps
     \<and> Ors addr stride deps \<noteq> []
     \<and> FinalCond (Ors addr stride deps) \<noteq> None
     \<and> LCLICM_emitPreheaderBranch TrueDest FalseDest addr stride deps \<noteq> None"
proof -
  from assms have va: "visitAccesses d accs (initPromotionPtrDeps sets) = Some deps"
    and ex: "list_ex (\<lambda>Pair. length (snd Pair) > 0) deps"
    by (auto simp: populatePromotionPtrDeps_def split: option.splits if_splits)
  from va have ev: "evenDeps deps" by (rule visitAccesses_even) (rule evenDeps_init)
  have two: "snd Pair = [] \<or> 2 \<le> length (snd Pair)" if "Pair \<in> set deps" for Pair
  proof -
    from ev that have "even (length (snd Pair))" by (auto simp: evenDeps_def list_all_iff)
    then show ?thesis by (cases "snd Pair"; cases "tl (snd Pair)") auto
  qed
  from ex obtain Pair where P: "Pair \<in> set deps" "snd Pair \<noteq> []"
    by (auto simp: list_ex_iff)
  with two have "2 \<le> length (snd Pair)" by blast
  then have "pairsOfDeps addr stride (snd Pair) \<noteq> []" by (rule pairsOfDeps_nonempty)
  with P(1) have "OverlapConditionPairs addr stride deps \<noteq> []"
    by (auto simp: OverlapConditionPairs_def)
  then have o: "Ors addr stride deps \<noteq> []" by (simp add: Ors_def)
  then have f: "FinalCond (Ors addr stride deps) \<noteq> None" by (rule FinalCond_defined)
  then have "LCLICM_emitPreheaderBranch TrueDest FalseDest addr stride deps \<noteq> None"
    by (auto simp: LCLICM_emitPreheaderBranch_def)
  with two o f show ?thesis by (auto simp: list_all_iff)
qed



theorem LCLICM_branch_condition_defined_witness:
  "list_all (\<lambda>Pair. snd Pair = [] \<or> 2 \<le> length (snd Pair)) fn_deps
     \<and> Ors two_ranges_addr byte_stride fn_deps \<noteq> []
     \<and> FinalCond (Ors two_ranges_addr byte_stride fn_deps) \<noteq> None
     \<and> LCLICM_emitPreheaderBranch 0 1 two_ranges_addr byte_stride fn_deps \<noteq> None"
proof -
  have h: "populatePromotionPtrDeps fn_dominatesPreheader fn_Accesses
      (initPromotionPtrDeps (collectPromotionCandidates fn_AST)) = Some fn_deps"
    by (simp add: populatePromotionPtrDeps_def fn_Accesses_def fn_store_def
        initPromotionPtrDeps_def collectPromotionCandidates_def fn_AST_def insert_empty_def
        count_def fn_P_def fn_Q_def fn_a_def push_back_def updateOffset_def
        fn_dominatesPreheader_def fn_deps_def)
  show ?thesis
    by (rule LCLICM_branch_condition_defined [OF h])
qed

text \<open>
  C3. The guard of two recorded ranges \<open>[1000, 1100)\<close> and \<open>[5000, 5200)\<close>: they are
  disjoint, the condition the claim gives (\<open>start\<^sub>1 > end\<^sub>2\<close> or \<open>end\<^sub>1 < start\<^sub>2\<close>)
  holds, and the guard the code emits is false, so that the branch goes to
  \<^verbatim>\<open>FalseDest\<close>. Both comparisons of the code compare \<^verbatim>\<open>StartA\<close> with \<^verbatim>\<open>EndB\<close>.
\<close>

theorem LCLICM_guard_false_on_disjoint_ranges:
  "OverlapConditionPairs two_ranges_addr byte_stride two_ranges =
      [\<lparr>StartA = 1000, StartB = 5000, EndA = 1100, EndB = 5200\<rparr>]
   \<and> (icmp_sgt (1000 :: 64 word) 5200 \<or> icmp_slt (1100 :: 64 word) 5000)
   \<and> FinalCond (Ors two_ranges_addr byte_stride two_ranges) = Some False
   \<and> LCLICM_emitPreheaderBranch 10 20 two_ranges_addr byte_stride two_ranges = Some 20"
  by (simp add: OverlapConditionPairs_def two_ranges_def two_ranges_addr_def byte_stride_def
      GetStartAndEnd_def Ors_def Or_of_def FinalCond_def LCLICM_emitPreheaderBranch_def
      icmp_sgt_def icmp_slt_def)

text \<open>
  C8. A loop with a store to the promotion candidate whose value operand is not a
  binary operator, next to one of the accepted shape: the code skips the first store,
  \<^verbatim>\<open>populatePromotionPtrDeps\<close> returns true and \<^verbatim>\<open>runOnLoop\<close> duplicates the loop.
\<close>

theorem LCLICM_plain_store_is_skipped:
  "populatePromotionPtrDeps fn_dominatesPreheader fn_Accesses_plain_store
      (initPromotionPtrDeps (collectPromotionCandidates fn_AST))
    = Some fn_deps
   \<and> map_option fst
        (LCLICM_runOnLoop fn_duplicate
           fn_AST fn_Accesses_plain_store fn_dominatesPreheader fn_loop
           \<lparr>ProcessedLoops = {}, function_IR = ()\<rparr>)
      = Some True"
  by (simp add: populatePromotionPtrDeps_def fn_Accesses_plain_store_def fn_Accesses_def
      fn_store_def initPromotionPtrDeps_def collectPromotionCandidates_def fn_AST_def
      insert_empty_def count_def fn_P_def fn_Q_def fn_a_def push_back_def updateOffset_def
      fn_dominatesPreheader_def LCLICM_runOnLoop_def LCLICM_isCurrentLoopACandidate_def
      fn_loop_def getExitingBlock_def getExitBlock_def fn_deps_def)



subsection \<open>The guard of LASBC\<close>

lemma sint_mult_8:
  fixes n :: "64 word"
  assumes "- (2 ^ 60) \<le> sint n" "sint n < 2 ^ 60"
  shows "sint (n * 8) = sint n * 8"
proof -
  have "sint (n * 8) = signed_take_bit 63 (sint n * sint (8 :: 64 word))"
    by (simp add: sint_word_ariths)
  also have "\<dots> = signed_take_bit 63 (sint n * 8)" by simp
  also have "\<dots> = sint n * 8"
    using assms by (intro signed_take_bit_int_eq_self) simp_all
  finally show ?thesis .
qed

text \<open>
  As long as \<open>N * 8\<close> does not leave the 64 bits, that is for every \<open>N\<close> below \<open>2\<^sup>6\<^sup>0\<close>,
  the guard is the condition on integers: \<open>0 < N\<close> and \<open>N * 8 \<le> INT32_MAX\<close>.
\<close>

lemma LASBC_BranchCondition_in_range:
  fixes n :: "64 word"
  assumes "sint n < 2 ^ 60"
  shows "LASBC_BranchCondition n \<longleftrightarrow> 0 < sint n \<and> sint n * 8 \<le> INT32_MAX"
proof (cases "0 < sint n")
  case True
  then have "sint (n * 8) = sint n * 8" using assms by (intro sint_mult_8) simp_all
  then show ?thesis by (simp add: LASBC_BranchCondition_64)
next
  case False
  then show ?thesis by (simp add: LASBC_BranchCondition_64)
qed

text \<open>
  C2. For \<open>N = 2\<^sup>6\<^sup>1\<close> the product \<open>N * 8\<close> wraps around to 0: the guard is true and the
  branch goes to \<^verbatim>\<open>TrueDest\<close>, although \<open>N * 8\<close> is far above \<open>INT32_MAX\<close>.
\<close>

theorem LASBC_guard_true_on_overflow:
  "LASBC_BranchCondition (2305843009213693952 :: 64 word)
   \<and> INT32_MAX < sint (2305843009213693952 :: 64 word) * 8
   \<and> LASBC_emitPreheaderBranch 10 20 (2305843009213693952 :: 64 word) = 10"
  by (simp add: LASBC_emitPreheaderBranch_def LASBC_BranchCondition_64 INT32_MAX_def)


subsection \<open>Processed loops\<close>

lemma fold_insert_subset: "A \<subseteq> fold (\<lambda>Lp. insert (loopId Lp)) Ls A"
  by (induction Ls arbitrary: A) (auto, blast)

lemma fold_insert_member:
  "Lp \<in> set Ls \<Longrightarrow> loopId Lp \<in> fold (\<lambda>Lp. insert (loopId Lp)) Ls A"
proof (induction Ls arbitrary: A)
  case Nil
  then show ?case by simp
next
  case (Cons a Ls)
  then show ?case
    using fold_insert_subset [of "insert (loopId a) A" Ls] by auto
qed

lemma ProcessedLoops_transformCurrentLoop:
  "ProcessedLoops (transformCurrentLoop duplicate L s) =
     fold (\<lambda>Lp. insert (loopId Lp))
       (getLoopsInPreorder (snd (duplicate (function_IR s) L)))
       (fold (\<lambda>Lp. insert (loopId Lp)) (getLoopsInPreorder L) (ProcessedLoops s))"
  by (simp add: transformCurrentLoop_def Let_def split_def)

lemma transformCurrentLoop_marks:
  assumes "Lp \<in> set (getLoopsInPreorder L) \<union>
         set (getLoopsInPreorder (snd (duplicate (function_IR s) L)))"
  shows "loopId Lp \<in> ProcessedLoops (transformCurrentLoop duplicate L s)"
proof (cases "Lp \<in> set (getLoopsInPreorder L)")
  case True
  then have "loopId Lp \<in> fold (\<lambda>Lp. insert (loopId Lp)) (getLoopsInPreorder L) (ProcessedLoops s)"
    by (rule fold_insert_member)
  then show ?thesis
    unfolding ProcessedLoops_transformCurrentLoop
    using fold_insert_subset by (rule rev_subsetD)
next
  case False
  with assms have "Lp \<in> set (getLoopsInPreorder (snd (duplicate (function_IR s) L)))"
    by simp
  then show ?thesis
    unfolding ProcessedLoops_transformCurrentLoop by (rule fold_insert_member)
qed

lemma transformCurrentLoop_mono:
  "ProcessedLoops s \<subseteq> ProcessedLoops (transformCurrentLoop duplicate L s)"
  unfolding ProcessedLoops_transformCurrentLoop
  by (rule subset_trans [OF fold_insert_subset fold_insert_subset])

lemma LASBC_runOnLoop_mono:
  "LASBC_runOnLoop d L t = Some (r, t') \<Longrightarrow> ProcessedLoops t \<subseteq> ProcessedLoops t'"
  by (auto simp: LASBC_runOnLoop_def split: option.splits if_splits
      intro: subsetD [OF transformCurrentLoop_mono])

lemma LCLICM_runOnLoop_mono:
  "LCLICM_runOnLoop d AST Acc dp L t = Some (r, t') \<Longrightarrow> ProcessedLoops t \<subseteq> ProcessedLoops t'"
  by (auto simp: LCLICM_runOnLoop_def Let_def split: option.splits if_splits
      intro: subsetD [OF transformCurrentLoop_mono])

lemma LASBC_runOnLoop_processed:
  "loopId L \<in> ProcessedLoops t \<Longrightarrow> getLoopPreheader L \<noteq> None \<Longrightarrow>
     LASBC_runOnLoop d L t = Some (False, t)"
  by (auto simp: LASBC_runOnLoop_def)

lemma LCLICM_runOnLoop_processed:
  "loopId L \<in> ProcessedLoops t \<Longrightarrow> getLoopPreheader L \<noteq> None \<Longrightarrow>
     LCLICM_runOnLoop d AST Acc dp L t = Some (False, t)"
  by (auto simp: LCLICM_runOnLoop_def)

text \<open>
  C4. After \<^verbatim>\<open>transformCurrentLoop\<close> every loop \<open>Lp\<close> of the two nests, that of the
  original loop and that of the copy, is in \<^verbatim>\<open>ProcessedLoops\<close>. No call of \<^verbatim>\<open>runOnLoop\<close>
  takes a loop out of the set, and in every state whose set holds those of the
  transformation (every later state, then), \<^verbatim>\<open>runOnLoop\<close> of either pass on such a loop
  returns false and leaves the state, function included, as it is. \<open>Lq\<close> is the object
  of \<open>Lp\<close> as LoopInfo describes it at the later call; the call is defined when the
  loop has a preheader.
\<close>

theorem processed_loops_are_skipped:
  assumes "Lp \<in> set (getLoopsInPreorder L) \<union>
         set (getLoopsInPreorder (snd (duplicate (function_IR s) L)))"
    and "loopId Lq = loopId Lp" and "getLoopPreheader Lq \<noteq> None"
  shows "loopId Lp \<in> ProcessedLoops (transformCurrentLoop duplicate L s)
    \<and> (\<forall>t. ProcessedLoops (transformCurrentLoop duplicate L s) \<subseteq> ProcessedLoops t \<longrightarrow>
          LASBC_runOnLoop d1 Lq t = Some (False, t))
    \<and> (\<forall>t. ProcessedLoops (transformCurrentLoop duplicate L s) \<subseteq> ProcessedLoops t \<longrightarrow>
          LCLICM_runOnLoop d2 AST Accesses dominatesPreheader Lq t = Some (False, t))
    \<and> (\<forall>L' t r t'. LASBC_runOnLoop d1 L' t = Some (r, t') \<longrightarrow>
          ProcessedLoops t \<subseteq> ProcessedLoops t')
    \<and> (\<forall>L' t r t'. LCLICM_runOnLoop d2 AST Accesses dominatesPreheader L' t = Some (r, t') \<longrightarrow>
          ProcessedLoops t \<subseteq> ProcessedLoops t')"
proof -
  have m: "loopId Lp \<in> ProcessedLoops (transformCurrentLoop duplicate L s)"
    using assms(1) by (rule transformCurrentLoop_marks)
  have a: "LASBC_runOnLoop d1 Lq t = Some (False, t)"
    if "ProcessedLoops (transformCurrentLoop duplicate L s) \<subseteq> ProcessedLoops t" for t
    using that m assms(2,3) by (intro LASBC_runOnLoop_processed) auto
  have b: "LCLICM_runOnLoop d2 AST Accesses dominatesPreheader Lq t = Some (False, t)"
    if "ProcessedLoops (transformCurrentLoop duplicate L s) \<subseteq> ProcessedLoops t" for t
    using that m assms(2,3) by (intro LCLICM_runOnLoop_processed) auto
  have c: "ProcessedLoops t \<subseteq> ProcessedLoops t'"
    if "LASBC_runOnLoop d1 L' t = Some (r, t')" for L' t r t'
    using that by (rule LASBC_runOnLoop_mono)
  have d: "ProcessedLoops t \<subseteq> ProcessedLoops t'"
    if "LCLICM_runOnLoop d2 AST Accesses dominatesPreheader L' t = Some (r, t')"
    for L' t r t'
    using that by (rule LCLICM_runOnLoop_mono)
  show ?thesis
    apply (intro conjI allI impI)
        apply (rule m)
       apply (erule a)
      apply (erule b)
     apply (erule c)
    apply (erule d)
    done
qed

theorem processed_loops_are_skipped_witness:
  "loopId foo_loop_clone \<in> ProcessedLoops (transformCurrentLoop foo_duplicate foo_loop foo_state)
   \<and> LASBC_runOnLoop (\<lambda>c. foo_duplicate) foo_loop_clone
         (transformCurrentLoop foo_duplicate foo_loop foo_state)
       = Some (False, transformCurrentLoop foo_duplicate foo_loop foo_state)
   \<and> LCLICM_runOnLoop (\<lambda>deps. foo_duplicate) fn_AST fn_Accesses fn_dominatesPreheader
         foo_loop_clone (transformCurrentLoop foo_duplicate foo_loop foo_state)
       = Some (False, transformCurrentLoop foo_duplicate foo_loop foo_state)"
proof -
  have 1: "foo_loop_clone \<in> set (getLoopsInPreorder foo_loop) \<union>
         set (getLoopsInPreorder (snd (foo_duplicate (function_IR foo_state) foo_loop)))"
    by (simp add: foo_duplicate_def foo_loop_clone_def)
  have 2: "loopId foo_loop_clone = loopId foo_loop_clone"
    by simp
  have 3: "getLoopPreheader foo_loop_clone \<noteq> None"
    by (simp add: foo_loop_clone_def)
  note T = processed_loops_are_skipped [where Lp = foo_loop_clone and Lq = foo_loop_clone
      and L = foo_loop and duplicate = foo_duplicate and s = foo_state
      and ?d1.0 = "\<lambda>c. foo_duplicate" and ?d2.0 = "\<lambda>deps. foo_duplicate"
      and AST = fn_AST and Accesses = fn_Accesses
      and dominatesPreheader = fn_dominatesPreheader, OF 1 2 3]
  from T have a: "loopId foo_loop_clone
      \<in> ProcessedLoops (transformCurrentLoop foo_duplicate foo_loop foo_state)"
    by (rule conjunct1)
  from T have B: "\<forall>t. ProcessedLoops (transformCurrentLoop foo_duplicate foo_loop foo_state)
         \<subseteq> ProcessedLoops t \<longrightarrow>
       LASBC_runOnLoop (\<lambda>c. foo_duplicate) foo_loop_clone t = Some (False, t)"
    by (elim conjE) assumption
  from T have C: "\<forall>t. ProcessedLoops (transformCurrentLoop foo_duplicate foo_loop foo_state)
         \<subseteq> ProcessedLoops t \<longrightarrow>
       LCLICM_runOnLoop (\<lambda>deps. foo_duplicate) fn_AST fn_Accesses fn_dominatesPreheader
         foo_loop_clone t = Some (False, t)"
    by (elim conjE) assumption
  note b = B [rule_format, OF subset_refl]
  note c = C [rule_format, OF subset_refl]
  from a b c show ?thesis by simp
qed


subsection \<open>The PHI nodes at the successors of the exit blocks\<close>

lemma keeps_refl: "keeps LP P P"
  by (simp add: keeps_def)

lemma keeps_trans: "keeps LP P Q \<Longrightarrow> keeps LP Q R \<Longrightarrow> keeps LP P R"
  by (auto simp: keeps_def split: if_splits)

lemma keeps_replaceUsesInPhi: "Old \<in> LP \<Longrightarrow> keeps LP P (replaceUsesInPhi Old New P)"
proof -
  assume o: "Old \<in> LP"
  have b: "blocksOf (replaceUsesInPhi Old New P) = blocksOf P"
    by (simp add: blocksOf_def replaceUsesInPhi_def split_def comp_def)
  have v: "replaceUsesInPhi Old New P = P" if "set (valuesOf P) \<inter> LP = {}"
  proof -
    from that o have "\<forall>e \<in> set (snd P). fst e \<noteq> Old" by (auto simp: valuesOf_def)
    then have "map (\<lambda>(V, BB). (if V = Old then New else V, BB)) (snd P) = snd P"
      by (induction "snd P") (auto simp: map_idI split_def)
    then show ?thesis by (simp add: replaceUsesInPhi_def)
  qed
  show ?thesis using b v by (simp add: keeps_def replaceUsesInPhi_def)
qed

lemma keeps_all_refl: "list_all2 (keeps LP) Ps Ps"
  by (simp add: list_all2_refl keeps_refl)

lemma keeps_all_trans:
  "list_all2 (keeps LP) Ps Qs \<Longrightarrow> list_all2 (keeps LP) Qs Rs \<Longrightarrow> list_all2 (keeps LP) Ps Rs"
  by (rule list_all2_trans [of "keeps LP" "keeps LP" "keeps LP"]) (auto intro: keeps_trans)

lemma keeps_all_replaceAllUsesWith:
  "Old \<in> LP \<Longrightarrow> list_all2 (keeps LP) (ps b) (replaceAllUsesWith Old New ps b)"
  by (simp add: replaceAllUsesWith_def list_all2_map2 list_all2_refl keeps_replaceUsesInPhi)

lemma unifyLandingPads_keeps:
  assumes "\<forall>BB \<in> set preds. getLPI BB \<noteq> None"
  shows "\<exists>ps' PNnode'. unifyLandingPads getLPI PN preds ps PNnode = Some (ps', PNnode')
            \<and> blocksOf PNnode' = blocksOf PNnode @ preds
            \<and> (\<forall>b. list_all2 (keeps (ran getLPI)) (ps b) (ps' b))"
  using assms
proof (induction preds arbitrary: ps PNnode)
  case Nil
  then show ?case by (simp add: keeps_all_refl)
next
  case (Cons BB preds)
  then obtain LPI where l: "getLPI BB = Some LPI" by auto
  then have lp: "LPI \<in> ran getLPI" by (auto simp: ran_def)
  let ?ps1 = "replaceAllUsesWith LPI (Instruction PN) ps"
  let ?n1 = "addIncoming (replaceUsesInPhi LPI (Instruction PN) PNnode) LPI BB"
  from Cons.prems have "\<forall>BB \<in> set preds. getLPI BB \<noteq> None" by simp
  from Cons.IH [OF this, of ?ps1 ?n1] obtain ps' PNnode' where
    r: "unifyLandingPads getLPI PN preds ?ps1 ?n1 = Some (ps', PNnode')"
    and bl: "blocksOf PNnode' = blocksOf ?n1 @ preds"
    and k: "\<forall>b. list_all2 (keeps (ran getLPI)) (?ps1 b) (ps' b)"
    by blast
  have b1: "blocksOf ?n1 = blocksOf PNnode @ [BB]"
    by (simp add: blocksOf_def addIncoming_def replaceUsesInPhi_def split_def comp_def)
  have "list_all2 (keeps (ran getLPI)) (ps b) (ps' b)" for b
  proof -
    have "list_all2 (keeps (ran getLPI)) (ps b) (?ps1 b)"
      using lp by (rule keeps_all_replaceAllUsesWith)
    moreover have "list_all2 (keeps (ran getLPI)) (?ps1 b) (ps' b)"
      using k by simp
    ultimately show ?thesis by (rule keeps_all_trans)
  qed
  with r bl b1 l show ?case by simp
qed

lemma getIncomingValueForBlock_Some:
  "BB \<in> set (blocksOf PN) \<Longrightarrow> \<exists>V. getIncomingValueForBlock PN BB = Some V"
proof -
  assume "BB \<in> set (blocksOf PN)"
  then have "\<exists>e \<in> set (snd PN). snd e = BB" by (auto simp: blocksOf_def)
  then have "find (\<lambda>e. snd e = BB) (snd PN) \<noteq> None" by (auto simp: find_None_iff)
  then show ?thesis by (auto simp: getIncomingValueForBlock_def)
qed

lemma addIncomingForNewExit_map:
  assumes "\<forall>PN \<in> set PNs. EB \<in> set (blocksOf PN)"
  shows "addIncomingForNewExit (VMap ctx) EB (VMapBlock ctx EB) PNs
           = Some (map (addEntry ctx EB) PNs)"
  using assms
proof (induction PNs)
  case Nil
  then show ?case by simp
next
  case (Cons PN PNs)
  then obtain V where "getIncomingValueForBlock PN EB = Some V"
    using getIncomingValueForBlock_Some [of EB PN] by auto
  with Cons show ?case by (simp add: addEntry_def)
qed

lemma keeps_addEntry:
  "keeps LP P Q \<Longrightarrow> keeps LP (addEntry ctx EB P) (addEntry ctx EB Q)"
proof -
  assume k: "keeps LP P Q"
  have 1: "fst (addEntry ctx EB Q) = fst (addEntry ctx EB P)"
    using k by (simp add: keeps_def addEntry_def addIncoming_def)
  have 2: "blocksOf (addEntry ctx EB Q) = blocksOf (addEntry ctx EB P)"
    using k by (simp add: keeps_def addEntry_def addIncoming_def blocksOf_def)
  have 3: "addEntry ctx EB Q = addEntry ctx EB P"
    if "set (valuesOf (addEntry ctx EB P)) \<inter> LP = {}"
  proof -
    from that have "set (valuesOf P) \<inter> LP = {}"
      by (auto simp: addEntry_def addIncoming_def valuesOf_def)
    with k have "Q = P" by (simp add: keeps_def)
    then show ?thesis by simp
  qed
  from 1 2 3 show ?thesis by (simp add: keeps_def)
qed

lemma updateExitSuccessor_keeps:
  assumes succ: "getSingleSuccessor ctx (VMapBlock ctx EB) = Some ES"
    and entry: "\<forall>PN \<in> set (ps ES). EB \<in> set (blocksOf PN)"
    and pads: "getLandingPadInst ctx (VMapBlock ctx EB) \<noteq> None \<Longrightarrow>
                 \<forall>BB \<in> set (predecessors ctx ES). getLandingPadInst ctx BB \<noteq> None"
  shows "\<exists>ps' X news. updateExitSuccessor ctx EB ps = Some ps'
      \<and> (\<forall>b. b \<noteq> ES \<longrightarrow> list_all2 (keeps (ran (getLandingPadInst ctx))) (ps b) (ps' b))
      \<and> ps' ES = X @ news
      \<and> list_all2 (keeps (ran (getLandingPadInst ctx))) (map (addEntry ctx EB) (ps ES)) X
      \<and> (\<forall>N \<in> set news. blocksOf N = predecessors ctx ES)"
proof -
  let ?LP = "ran (getLandingPadInst ctx)"
  let ?PNs = "map (addEntry ctx EB) (ps ES)"
  have a: "addIncomingForNewExit (VMap ctx) EB (VMapBlock ctx EB) (ps ES) = Some ?PNs"
    using entry by (rule addIncomingForNewExit_map)
  show ?thesis
  proof (cases "getLandingPadInst ctx (VMapBlock ctx EB)")
    case None
    then have "updateExitSuccessor ctx EB ps = Some (ps(ES := ?PNs))"
      using succ a by (simp add: updateExitSuccessor_def)
    moreover have "\<forall>b. b \<noteq> ES \<longrightarrow> list_all2 (keeps ?LP) (ps b) ((ps(ES := ?PNs)) b)"
      by (simp add: keeps_all_refl)
    moreover have "(ps(ES := ?PNs)) ES = ?PNs @ []" by simp
    moreover have "list_all2 (keeps ?LP) ?PNs ?PNs" by (rule keeps_all_refl)
    ultimately show ?thesis by (metis empty_iff list.set(1))
  next
    case (Some LPad)
    then have "\<forall>BB \<in> set (predecessors ctx ES). getLandingPadInst ctx BB \<noteq> None"
      using pads by simp
    from unifyLandingPads_keeps [OF this, of "newPHI ctx EB" "ps(ES := ?PNs)"
        "(newPHI ctx EB, [])"]
    obtain ps1 PNnode where
      u: "unifyLandingPads (getLandingPadInst ctx) (newPHI ctx EB) (predecessors ctx ES)
            (ps(ES := ?PNs)) (newPHI ctx EB, []) = Some (ps1, PNnode)"
      and bl: "blocksOf PNnode = blocksOf (newPHI ctx EB, []) @ predecessors ctx ES"
      and k: "\<forall>b. list_all2 (keeps ?LP) ((ps(ES := ?PNs)) b) (ps1 b)"
      by blast
    have r: "updateExitSuccessor ctx EB ps = Some (ps1(ES := ps1 ES @ [PNnode]))"
      using succ a Some u by (simp add: updateExitSuccessor_def)
    have o: "\<forall>b. b \<noteq> ES \<longrightarrow> list_all2 (keeps ?LP) (ps b) ((ps1(ES := ps1 ES @ [PNnode])) b)"
      using k by (metis fun_upd_other)
    have x: "list_all2 (keeps ?LP) ?PNs (ps1 ES)"
      using k by (metis fun_upd_same)
    have n: "\<forall>N \<in> set [PNnode]. blocksOf N = predecessors ctx ES"
      using bl by (simp add: blocksOf_def)
    have e: "(ps1(ES := ps1 ES @ [PNnode])) ES = ps1 ES @ [PNnode]" by simp
    from r o e x n show ?thesis by blast
  qed
qed

lemma keeps_all_blocks:
  assumes "list_all2 (keeps LP) Ps Qs" and "Q \<in> set Qs"
  shows "\<exists>P \<in> set Ps. blocksOf Q = blocksOf P"
proof -
  from assms(2) obtain i where i: "i < length Qs" "Q = Qs ! i"
    by (auto simp: in_set_conv_nth)
  from assms(1) have l: "length Ps = length Qs" by (rule list_all2_lengthD)
  from assms(1) i l have "keeps LP (Ps ! i) (Qs ! i)" by (simp add: list_all2_nthD2)
  then have "blocksOf Q = blocksOf (Ps ! i)" using i by (simp add: keeps_def)
  moreover have "Ps ! i \<in> set Ps" using i l by simp
  ultimately show ?thesis by blast
qed

lemma keeps_all_addEntry:
  "list_all2 (keeps LP) Ps Qs \<Longrightarrow>
     list_all2 (keeps LP) (map (addEntry ctx EB) Ps) (map (addEntry ctx EB) Qs)"
  by (simp add: list_all2_map1 list_all2_map2)
     (erule list_all2_mono, rule keeps_addEntry)

lemma updateExitSuccessors_keeps:
  assumes "\<forall>EB \<in> set Es. getSingleSuccessor ctx (VMapBlock ctx EB) = Some (S EB)"
    and "distinct (map S Es)"
    and "\<forall>EB \<in> set Es. \<forall>PN \<in> set (ps (S EB)). EB \<in> set (blocksOf PN)"
    and "\<forall>EB \<in> set Es. getLandingPadInst ctx (VMapBlock ctx EB) \<noteq> None \<longrightarrow>
           (\<forall>BB \<in> set (predecessors ctx (S EB)). getLandingPadInst ctx BB \<noteq> None)"
  shows "\<exists>ps'. updateExitSuccessors ctx Es ps = Some ps'
      \<and> (\<forall>b. b \<notin> S ` set Es \<longrightarrow>
            list_all2 (keeps (ran (getLandingPadInst ctx))) (ps b) (ps' b))
      \<and> (\<forall>EB \<in> set Es. \<exists>X news. ps' (S EB) = X @ news
            \<and> list_all2 (keeps (ran (getLandingPadInst ctx)))
                 (map (addEntry ctx EB) (ps (S EB))) X
            \<and> (\<forall>N \<in> set news. blocksOf N = predecessors ctx (S EB)))"
  using assms
proof (induction Es arbitrary: ps)
  case Nil
  then show ?case by (simp add: keeps_all_refl)
next
  case (Cons EB Es)
  let ?LP = "ran (getLandingPadInst ctx)"
  have succ: "getSingleSuccessor ctx (VMapBlock ctx EB) = Some (S EB)"
    using Cons.prems(1) by simp
  have entry: "\<forall>PN \<in> set (ps (S EB)). EB \<in> set (blocksOf PN)"
    using Cons.prems(3) by simp
  have pads: "getLandingPadInst ctx (VMapBlock ctx EB) \<noteq> None \<Longrightarrow>
       \<forall>BB \<in> set (predecessors ctx (S EB)). getLandingPadInst ctx BB \<noteq> None"
  proof
    fix BB
    assume a: "getLandingPadInst ctx (VMapBlock ctx EB) \<noteq> None"
      and b: "BB \<in> set (predecessors ctx (S EB))"
    have "EB \<in> set (EB # Es)" by simp
    from Cons.prems(4) [rule_format, OF this a b]
    show "getLandingPadInst ctx BB \<noteq> None" .
  qed
  from updateExitSuccessor_keeps [where ctx = ctx and EB = EB and ES = "S EB" and ps = ps,
      OF succ entry pads]
  obtain ps1 X1 news1 where
    step: "updateExitSuccessor ctx EB ps = Some ps1"
    and other1: "\<forall>b. b \<noteq> S EB \<longrightarrow> list_all2 (keeps ?LP) (ps b) (ps1 b)"
    and at1: "ps1 (S EB) = X1 @ news1"
    and x1: "list_all2 (keeps ?LP) (map (addEntry ctx EB) (ps (S EB))) X1"
    and n1: "\<forall>N \<in> set news1. blocksOf N = predecessors ctx (S EB)"
    by blast
  have fresh: "S EB \<notin> S ` set Es" using Cons.prems(2) by simp
  have ne: "S EB' \<noteq> S EB" if "EB' \<in> set Es" for EB'
  proof
    assume eq: "S EB' = S EB"
    from that have "S EB' \<in> S ` set Es" by (rule imageI)
    then have "S EB \<in> S ` set Es" unfolding eq .
    with fresh show False by (rule notE)
  qed
  have p1: "\<forall>EB \<in> set Es. getSingleSuccessor ctx (VMapBlock ctx EB) = Some (S EB)"
    using Cons.prems(1) by simp
  have p2: "distinct (map S Es)" using Cons.prems(2) by simp
  have p3: "\<forall>EB' \<in> set Es. \<forall>PN \<in> set (ps1 (S EB')). EB' \<in> set (blocksOf PN)"
  proof (intro ballI)
    fix EB' PN assume e: "EB' \<in> set Es" and pn: "PN \<in> set (ps1 (S EB'))"
    from ne [OF e] other1 have "list_all2 (keeps ?LP) (ps (S EB')) (ps1 (S EB'))" by simp
    from keeps_all_blocks [OF this pn] obtain P where
      "P \<in> set (ps (S EB'))" "blocksOf PN = blocksOf P" by blast
    with Cons.prems(3) e show "EB' \<in> set (blocksOf PN)" by simp
  qed
  have p4: "\<forall>EB \<in> set Es. getLandingPadInst ctx (VMapBlock ctx EB) \<noteq> None \<longrightarrow>
           (\<forall>BB \<in> set (predecessors ctx (S EB)). getLandingPadInst ctx BB \<noteq> None)"
  proof (intro ballI impI)
    fix EB' BB
    assume e: "EB' \<in> set Es"
      and a: "getLandingPadInst ctx (VMapBlock ctx EB') \<noteq> None"
      and b: "BB \<in> set (predecessors ctx (S EB'))"
    from e have "EB' \<in> set (EB # Es)" by simp
    from Cons.prems(4) [rule_format, OF this a b]
    show "getLandingPadInst ctx BB \<noteq> None" .
  qed
  from Cons.IH [OF p1 p2 p3 p4] obtain ps' where
    run: "updateExitSuccessors ctx Es ps1 = Some ps'"
    and other: "\<forall>b. b \<notin> S ` set Es \<longrightarrow> list_all2 (keeps ?LP) (ps1 b) (ps' b)"
    and at: "\<forall>EB \<in> set Es. \<exists>X news. ps' (S EB) = X @ news
            \<and> list_all2 (keeps ?LP) (map (addEntry ctx EB) (ps1 (S EB))) X
            \<and> (\<forall>N \<in> set news. blocksOf N = predecessors ctx (S EB))"
    by blast
  have r: "updateExitSuccessors ctx (EB # Es) ps = Some ps'"
    using step run by simp
  have o: "\<forall>b. b \<notin> S ` set (EB # Es) \<longrightarrow> list_all2 (keeps ?LP) (ps b) (ps' b)"
  proof (intro allI impI)
    fix b assume "b \<notin> S ` set (EB # Es)"
    then have nb: "b \<noteq> S EB" "b \<notin> S ` set Es" by auto
    from other1 nb(1) have k1: "list_all2 (keeps ?LP) (ps b) (ps1 b)" by simp
    from other nb(2) have k2: "list_all2 (keeps ?LP) (ps1 b) (ps' b)" by simp
    from k1 k2 show "list_all2 (keeps ?LP) (ps b) (ps' b)" by (rule keeps_all_trans)
  qed
  have here: "\<exists>X news. ps' (S EB) = X @ news
            \<and> list_all2 (keeps ?LP) (map (addEntry ctx EB) (ps (S EB))) X
            \<and> (\<forall>N \<in> set news. blocksOf N = predecessors ctx (S EB))"
  proof -
    from other fresh have "list_all2 (keeps ?LP) (ps1 (S EB)) (ps' (S EB))" by simp
    then have "list_all2 (keeps ?LP) (X1 @ news1) (ps' (S EB))" by (simp add: at1)
    then obtain X' news' where
      eq: "ps' (S EB) = X' @ news'"
      and kx: "list_all2 (keeps ?LP) X1 X'"
      and kn: "list_all2 (keeps ?LP) news1 news'"
      by (auto simp: list_all2_append1)
    have "list_all2 (keeps ?LP) (map (addEntry ctx EB) (ps (S EB))) X'"
      using x1 kx by (rule keeps_all_trans)
    moreover have "\<forall>N \<in> set news'. blocksOf N = predecessors ctx (S EB)"
    proof
      fix N assume "N \<in> set news'"
      from keeps_all_blocks [OF kn this] obtain M where
        "M \<in> set news1" "blocksOf N = blocksOf M" by blast
      with n1 show "blocksOf N = predecessors ctx (S EB)" by simp
    qed
    ultimately show ?thesis using eq by blast
  qed
  have there: "\<exists>X news. ps' (S EB') = X @ news
            \<and> list_all2 (keeps ?LP) (map (addEntry ctx EB') (ps (S EB'))) X
            \<and> (\<forall>N \<in> set news. blocksOf N = predecessors ctx (S EB'))"
    if e: "EB' \<in> set Es" for EB'
  proof -
    from at e obtain X news where
      eq: "ps' (S EB') = X @ news"
      and kx: "list_all2 (keeps ?LP) (map (addEntry ctx EB') (ps1 (S EB'))) X"
      and n: "\<forall>N \<in> set news. blocksOf N = predecessors ctx (S EB')"
      by blast
    from ne [OF e] other1 have "list_all2 (keeps ?LP) (ps (S EB')) (ps1 (S EB'))" by simp
    then have "list_all2 (keeps ?LP) (map (addEntry ctx EB') (ps (S EB')))
        (map (addEntry ctx EB') (ps1 (S EB')))"
      by (rule keeps_all_addEntry)
    then have "list_all2 (keeps ?LP) (map (addEntry ctx EB') (ps (S EB'))) X"
      using kx by (rule keeps_all_trans)
    with eq n show ?thesis by blast
  qed
  have everywhere: "\<forall>EB' \<in> set (EB # Es). \<exists>X news. ps' (S EB') = X @ news
            \<and> list_all2 (keeps ?LP) (map (addEntry ctx EB') (ps (S EB'))) X
            \<and> (\<forall>N \<in> set news. blocksOf N = predecessors ctx (S EB'))"
  proof
    fix EB' assume "EB' \<in> set (EB # Es)"
    then consider "EB' = EB" | "EB' \<in> set Es" by auto
    then show "\<exists>X news. ps' (S EB') = X @ news
            \<and> list_all2 (keeps ?LP) (map (addEntry ctx EB') (ps (S EB'))) X
            \<and> (\<forall>N \<in> set news. blocksOf N = predecessors ctx (S EB'))"
    proof cases
      case 1
      show ?thesis unfolding 1 by (rule here)
    next
      case 2
      then show ?thesis by (rule there)
    qed
  qed
  show ?case
    by (intro exI conjI) (rule r, rule o, rule everywhere)
qed

lemma valuesOf_addEntry:
  "set (valuesOf (addEntry ctx EB P)) =
     insert (translate (VMap ctx) (the (getIncomingValueForBlock P EB))) (set (valuesOf P))"
  by (simp add: addEntry_def addIncoming_def valuesOf_def)

lemma getIncomingValueForBlock_in_values:
  "getIncomingValueForBlock P BB = Some V \<Longrightarrow> V \<in> set (valuesOf P)"
proof -
  assume "getIncomingValueForBlock P BB = Some V"
  then obtain e where "find (\<lambda>e. snd e = BB) (snd P) = Some e" "V = fst e"
    by (auto simp: getIncomingValueForBlock_def)
  then have "e \<in> set (snd P)" by (auto simp: find_Some_iff)
  with \<open>V = fst e\<close> show ?thesis by (simp add: valuesOf_def)
qed

text \<open>
  C5. The loop over the exit blocks returns (no assertion fails), and afterwards, at
  the successor \<open>S EB\<close> of every exit block \<open>EB\<close>: every PHI node has exactly one
  entry for each predecessor of the block (the blocks of its entries are the
  predecessors, as multisets); every PHI node that was there before keeps its place
  and its number and has one more entry, the last, for the copy of the exit block;
  and, its values not being landing pad instructions, its old entries are unchanged
  and the value of the new entry is the \<^verbatim>\<open>VMap\<close> translation of its value for the
  exit block. Assumed of the function after cloning: the copy of each exit block has
  one successor, different exit blocks have different successors, the exit block is
  a predecessor of the successor and is not its own copy, each PHI node at the
  successor has one entry for each predecessor but the copy, and, where the copy has a
  landing pad, every predecessor of the successor has one.
\<close>

theorem exit_successor_phis_complete:
  assumes succs: "\<forall>EB \<in> set ExitBlocks.
        getSingleSuccessor ctx (VMapBlock ctx EB) = Some (S EB)"
    and dist: "distinct (map S ExitBlocks)"
    and preds: "\<forall>EB \<in> set ExitBlocks.
        EB \<in> set (predecessors ctx (S EB)) \<and> EB \<noteq> VMapBlock ctx EB"
    and before: "\<forall>EB \<in> set ExitBlocks. \<forall>PN \<in> set (ps (S EB)).
        mset (blocksOf PN) + {#VMapBlock ctx EB#} = mset (predecessors ctx (S EB))"
    and pads: "\<forall>EB \<in> set ExitBlocks. getLandingPadInst ctx (VMapBlock ctx EB) \<noteq> None \<longrightarrow>
        (\<forall>BB \<in> set (predecessors ctx (S EB)). getLandingPadInst ctx BB \<noteq> None)"
    and EB: "EB \<in> set ExitBlocks"
  shows "\<exists>ps'. updateExitSuccessors ctx ExitBlocks ps = Some ps'
      \<and> (\<forall>PN \<in> set (ps' (S EB)). mset (blocksOf PN) = mset (predecessors ctx (S EB)))
      \<and> length (ps (S EB)) \<le> length (ps' (S EB))
      \<and> (\<forall>i < length (ps (S EB)).
            fst (ps' (S EB) ! i) = fst (ps (S EB) ! i)
          \<and> blocksOf (ps' (S EB) ! i) = blocksOf (ps (S EB) ! i) @ [VMapBlock ctx EB]
          \<and> (usesNoLandingPad ctx (ps (S EB) ! i) \<longrightarrow>
               (\<exists>V. getIncomingValueForBlock (ps (S EB) ! i) EB = Some V
                  \<and> snd (ps' (S EB) ! i)
                      = snd (ps (S EB) ! i) @ [(translate (VMap ctx) V, VMapBlock ctx EB)])))"
proof -
  let ?LP = "ran (getLandingPadInst ctx)"
  let ?ES = "S EB"
  let ?NewExit = "VMapBlock ctx EB"
  have entry: "\<forall>EB \<in> set ExitBlocks. \<forall>PN \<in> set (ps (S EB)). EB \<in> set (blocksOf PN)"
  proof (intro ballI)
    fix E PN assume e: "E \<in> set ExitBlocks" and pn: "PN \<in> set (ps (S E))"
    from before e pn have m: "mset (blocksOf PN) + {#VMapBlock ctx E#}
        = mset (predecessors ctx (S E))" by simp
    from preds e have "E \<in># mset (predecessors ctx (S E))" "E \<noteq> VMapBlock ctx E" by simp_all
    then have "E \<in># mset (blocksOf PN)" unfolding m [symmetric] by simp
    then show "E \<in> set (blocksOf PN)" by simp
  qed
  from updateExitSuccessors_keeps [where ctx = ctx and S = S and Es = ExitBlocks and ps = ps,
      OF succs dist entry pads]
  obtain ps' where
    run: "updateExitSuccessors ctx ExitBlocks ps = Some ps'"
    and at: "\<forall>EB \<in> set ExitBlocks. \<exists>X news. ps' (S EB) = X @ news
            \<and> list_all2 (keeps ?LP) (map (addEntry ctx EB) (ps (S EB))) X
            \<and> (\<forall>N \<in> set news. blocksOf N = predecessors ctx (S EB))"
    by (elim exE conjE)
  from at EB have "\<exists>X news. ps' ?ES = X @ news
            \<and> list_all2 (keeps ?LP) (map (addEntry ctx EB) (ps ?ES)) X
            \<and> (\<forall>N \<in> set news. blocksOf N = predecessors ctx ?ES)"
    by (rule bspec)
  then obtain X news where
    eq: "ps' ?ES = X @ news"
    and kx: "list_all2 (keeps ?LP) (map (addEntry ctx EB) (ps ?ES)) X"
    and nw: "\<forall>N \<in> set news. blocksOf N = predecessors ctx ?ES"
    by (elim exE conjE)
  from kx have len: "length X = length (ps ?ES)" by (simp add: list_all2_lengthD [symmetric])
  have nth: "keeps ?LP (addEntry ctx EB (ps ?ES ! i)) (ps' ?ES ! i)"
    if "i < length (ps ?ES)" for i
  proof -
    from that have "i < length (map (addEntry ctx EB) (ps ?ES))" by simp
    with kx have "keeps ?LP (map (addEntry ctx EB) (ps ?ES) ! i) (X ! i)"
      by (rule list_all2_nthD)
    then show ?thesis using that len by (simp add: eq nth_append)
  qed
  have blocks: "blocksOf (addEntry ctx EB P) = blocksOf P @ [?NewExit]" for P
    by (simp add: addEntry_def addIncoming_def blocksOf_def)
  have complete: "mset (blocksOf PN) = mset (predecessors ctx ?ES)"
    if pn: "PN \<in> set (ps' ?ES)" for PN
  proof -
    from pn eq consider "PN \<in> set X" | "PN \<in> set news" by auto
    then show ?thesis
    proof cases
      case 1
      then obtain i where i: "i < length X" "PN = X ! i" by (auto simp: in_set_conv_nth)
      then have il: "i < length (ps ?ES)" using len by simp
      from nth [OF il] have "blocksOf (ps' ?ES ! i) = blocksOf (ps ?ES ! i) @ [?NewExit]"
        by (simp add: keeps_def blocks)
      moreover have "ps' ?ES ! i = PN" using i by (simp add: eq nth_append)
      moreover have "mset (blocksOf (ps ?ES ! i)) + {#?NewExit#} = mset (predecessors ctx ?ES)"
        using before EB il by simp
      ultimately show ?thesis by simp
    next
      case 2
      with nw show ?thesis by simp
    qed
  qed
  have each: "fst (ps' ?ES ! i) = fst (ps ?ES ! i)
          \<and> blocksOf (ps' ?ES ! i) = blocksOf (ps ?ES ! i) @ [?NewExit]
          \<and> (usesNoLandingPad ctx (ps ?ES ! i) \<longrightarrow>
               (\<exists>V. getIncomingValueForBlock (ps ?ES ! i) EB = Some V
                  \<and> snd (ps' ?ES ! i)
                      = snd (ps ?ES ! i) @ [(translate (VMap ctx) V, ?NewExit)]))"
    if il: "i < length (ps ?ES)" for i
  proof -
    let ?P = "ps ?ES ! i"
    note k = nth [OF il]
    have f: "fst (ps' ?ES ! i) = fst ?P"
      using k by (simp add: keeps_def addEntry_def addIncoming_def)
    have b: "blocksOf (ps' ?ES ! i) = blocksOf ?P @ [?NewExit]"
      using k by (simp add: keeps_def blocks)
    from entry EB il have "EB \<in> set (blocksOf ?P)" by simp
    then obtain V where V: "getIncomingValueForBlock ?P EB = Some V"
      by (blast dest: getIncomingValueForBlock_Some)
    have v: "snd (ps' ?ES ! i) = snd ?P @ [(translate (VMap ctx) V, ?NewExit)]"
      if u: "usesNoLandingPad ctx ?P"
    proof -
      from V have "V \<in> set (valuesOf ?P)" by (rule getIncomingValueForBlock_in_values)
      with u have "set (valuesOf (addEntry ctx EB ?P)) \<inter> ?LP = {}"
        unfolding valuesOf_addEntry usesNoLandingPad_def V by auto
      with k have "ps' ?ES ! i = addEntry ctx EB ?P" by (simp add: keeps_def)
      then show ?thesis using V by (simp add: addEntry_def addIncoming_def)
    qed
    from f b V v show ?thesis by simp
  qed
  have le: "length (ps ?ES) \<le> length (ps' ?ES)" using len by (simp add: eq)
  show ?thesis
    by (intro exI conjI) (rule run, use complete in blast, rule le, use each in blast)
qed

theorem exit_successor_phis_complete_witness:
  "map_option (\<lambda>ps'. ps' 3) (updateExitSuccessors exit_ctx [5] exit_phis)
     = Some [(30, [(Instruction 20, 5), (Instruction 120, 15)])]
   \<and> (\<exists>ps'. updateExitSuccessors exit_ctx [5] exit_phis = Some ps'
      \<and> (\<forall>PN \<in> set (ps' 3). mset (blocksOf PN) = mset (predecessors exit_ctx 3))
      \<and> length (exit_phis 3) \<le> length (ps' 3)
      \<and> (\<forall>i < length (exit_phis 3).
            fst (ps' 3 ! i) = fst (exit_phis 3 ! i)
          \<and> blocksOf (ps' 3 ! i) = blocksOf (exit_phis 3 ! i) @ [VMapBlock exit_ctx 5]
          \<and> (usesNoLandingPad exit_ctx (exit_phis 3 ! i) \<longrightarrow>
               (\<exists>V. getIncomingValueForBlock (exit_phis 3 ! i) 5 = Some V
                  \<and> snd (ps' 3 ! i)
                      = snd (exit_phis 3 ! i)
                        @ [(translate (VMap exit_ctx) V, VMapBlock exit_ctx 5)]))))"
proof -
  have h1: "\<forall>EB \<in> set [5]. getSingleSuccessor exit_ctx (VMapBlock exit_ctx EB) = Some 3"
    by (simp add: exit_ctx_def)
  have h2: "distinct (map (\<lambda>b. 3 :: block) [5 :: block])"
    by simp
  have h3: "\<forall>EB \<in> set [5]. EB \<in> set (predecessors exit_ctx 3) \<and> EB \<noteq> VMapBlock exit_ctx EB"
    by (simp add: exit_ctx_def)
  have h4: "\<forall>EB \<in> set [5]. \<forall>PN \<in> set (exit_phis 3).
      mset (blocksOf PN) + {#VMapBlock exit_ctx EB#} = mset (predecessors exit_ctx 3)"
    by (simp add: exit_ctx_def exit_phis_def blocksOf_def)
  have h5: "\<forall>EB \<in> set [5]. getLandingPadInst exit_ctx (VMapBlock exit_ctx EB) \<noteq> None \<longrightarrow>
      (\<forall>BB \<in> set (predecessors exit_ctx 3). getLandingPadInst exit_ctx BB \<noteq> None)"
    by (simp add: exit_ctx_def)
  have h6: "(5 :: block) \<in> set [5]"
    by simp
  have e: "map_option (\<lambda>ps'. ps' 3) (updateExitSuccessors exit_ctx [5] exit_phis)
     = Some [(30, [(Instruction 20, 5), (Instruction 120, 15)])]"
    by (simp add: updateExitSuccessor_def exit_ctx_def exit_phis_def
        getIncomingValueForBlock_def addIncoming_def translate_def)
  note T = exit_successor_phis_complete [where ctx = exit_ctx and S = "\<lambda>b. 3"
      and ExitBlocks = "[5]" and ps = exit_phis and EB = 5, OF h1 h2 h3 h4 h5 h6]
  from e T show ?thesis by (rule conjI)
qed

end
